theory Spec2Isabelle
  imports Main
begin

section \<open>Text: Python strings as lists of code points\<close>

text \<open>
  A Python \<open>str\<close> is a sequence of Unicode code points and \<open>len\<close> counts code
  points, so a string is a list of code-point numbers here (not a list of 8-bit
  \<open>char\<close>s).
\<close>

type_synonym ustr = "nat list"

definition asc :: "string \<Rightarrow> ustr" where
  "asc s = map of_char s"

text \<open>
  \<open>str.isspace\<close> for one code point, as CPython tabulates it: the characters
  \<open>str.strip()\<close> removes when called without an argument.
\<close>

definition isspace :: "nat \<Rightarrow> bool" where
  "isspace c \<longleftrightarrow>
     (0x09 \<le> c \<and> c \<le> 0x0D) \<or> (0x1C \<le> c \<and> c \<le> 0x20) \<or> c = 0x85 \<or> c = 0xA0 \<or>
     c = 0x1680 \<or> (0x2000 \<le> c \<and> c \<le> 0x200A) \<or> c = 0x2028 \<or> c = 0x2029 \<or>
     c = 0x202F \<or> c = 0x205F \<or> c = 0x3000"

definition strip :: "ustr \<Rightarrow> ustr" where
  "strip s = rev (dropWhile isspace (rev (dropWhile isspace s)))"

section \<open>paragraphize\<close>

text \<open>
  The character class of the pattern given to \<open>re.split\<close>: U+3002 ideographic full stop,
  U+FF01 fullwidth exclamation mark, U+FF1F fullwidth question mark and U+FF1B
  fullwidth semicolon.
\<close>

definition is_term :: "nat \<Rightarrow> bool" where
  "is_term c \<longleftrightarrow> c = 0x3002 \<or> c = 0xFF01 \<or> c = 0xFF1F \<or> c = 0xFF1B"

text \<open>
  \<open>re.split\<close> with one capturing group around a one-character class: the pieces
  between the matches alternate with the matched characters, so the result is
  \<open>[text0, mark0, text1, mark1, ..., textN]\<close> (and \<open>['']\<close> for the empty string).
\<close>

fun re_split :: "ustr \<Rightarrow> ustr list" where
  "re_split [] = [[]]"
| "re_split (c # cs) =
     (if is_term c then [] # [c] # re_split cs
      else (c # hd (re_split cs)) # tl (re_split cs))"

text \<open>\<open>range(0, n, 2)\<close> and the slice \<open>xs[i:i+2]\<close> for \<open>0 \<le> i\<close>.\<close>

definition range2 :: "nat \<Rightarrow> nat list" where
  "range2 n = map (\<lambda>k. 2 * k) [0 ..< (n + 1) div 2]"

definition slice2 :: "'a list \<Rightarrow> nat \<Rightarrow> 'a list" where
  "slice2 xs i = take 2 (drop i xs)"

text \<open>\<open>["".join(sents[i:i+2]).strip() for i in range(0, len(sents), 2)]\<close>\<close>

definition join_pairs :: "ustr list \<Rightarrow> ustr list" where
  "join_pairs sents = map (\<lambda>i. strip (concat (slice2 sents i))) (range2 (length sents))"

definition split_sents :: "ustr \<Rightarrow> ustr list" where
  "split_sents txt = join_pairs (re_split txt)"

text \<open>
  The flush \<open>if cur.strip(): buf.append(cur.strip())\<close>, and the body of the
  \<open>for s in sents\<close> loop on the state \<open>(buf, cur)\<close>.
\<close>

definition flush :: "ustr list \<Rightarrow> ustr \<Rightarrow> ustr list" where
  "flush buf cur = (if strip cur \<noteq> [] then buf @ [strip cur] else buf)"

fun para_loop :: "int \<Rightarrow> ustr list \<Rightarrow> ustr list \<times> ustr \<Rightarrow> ustr list \<times> ustr" where
  "para_loop target_max [] (buf, cur) = (buf, cur)"
| "para_loop target_max (s # sents) (buf, cur) =
     (if int (length cur) + int (length s) < target_max
      then para_loop target_max sents (buf, cur @ s)
      else para_loop target_max sents (flush buf cur, s))"

text \<open>Lines 48 to 58: the loop from \<open>buf, cur = [], ""\<close> and the final flush.\<close>

definition group_sents :: "int \<Rightarrow> ustr list \<Rightarrow> ustr list" where
  "group_sents target_max sents =
     (case para_loop target_max sents ([], []) of (buf, cur) \<Rightarrow> flush buf cur)"

definition paragraphize :: "ustr \<Rightarrow> int \<Rightarrow> ustr list" where
  "paragraphize txt target_max = group_sents target_max (split_sents txt)"

text \<open>
  The grouping as the specification words it, for comparison with the loop: a running
  buffer collects sentences; when adding the next sentence would make its length
  reach or exceed the target, the buffer is flushed as a paragraph (an empty buffer
  gives no paragraph) and the sentence starts the new buffer; a non-empty trailing
  buffer is the last paragraph.
\<close>

definition spec_emit :: "ustr \<Rightarrow> ustr list" where
  "spec_emit cur = (if cur = [] then [] else [cur])"

fun spec_greedy :: "int \<Rightarrow> ustr \<Rightarrow> ustr list \<Rightarrow> ustr list" where
  "spec_greedy t cur [] = spec_emit cur"
| "spec_greedy t cur (s # ss) =
     (if t \<le> int (length cur) + int (length s)
      then spec_emit cur @ spec_greedy t s ss
      else spec_greedy t (cur @ s) ss)"

section \<open>Errors, paths and the file system\<close>

text \<open>
  Every exception the pipeline can see is a value; \<open>str(e)\<close> is its message.
  \<open>CapabilityError\<close> stands for whatever the audio engine or the recogniser raises.
\<close>

datatype error = RuntimeError ustr | ValueError ustr | OSError ustr | CapabilityError ustr

fun error_str :: "error \<Rightarrow> ustr" where
  "error_str (RuntimeError m) = m"
| "error_str (ValueError m) = m"
| "error_str (OSError m) = m"
| "error_str (CapabilityError m) = m"

text \<open>
  A \<open>pathlib\<close> path in parsed form: drive, root and the remaining components.
\<close>

record path =
  p_drive :: ustr
  p_root :: ustr
  p_parts :: "ustr list"

text \<open>\<open>Path.name\<close>: the final component, empty when there is none.\<close>

definition path_name :: "path \<Rightarrow> ustr" where
  "path_name p = (if p_parts p = [] then [] else last (p_parts p))"

text \<open>\<open>Path.parent\<close>.\<close>

definition path_parent :: "path \<Rightarrow> path" where
  "path_parent p = p\<lparr>p_parts := butlast (p_parts p)\<rparr>"

text \<open>
  \<open>p / n\<close> for a string \<open>n\<close> that is a single relative component (a file name):
  joining the empty string leaves the path as it is.
\<close>

definition joinpath :: "path \<Rightarrow> ustr \<Rightarrow> path" where
  "joinpath p n = (if n = [] then p else p\<lparr>p_parts := p_parts p @ [n]\<rparr>)"

text \<open>\<open>str.rfind\<close> of one character: the last index holding it.\<close>

fun rfind :: "nat \<Rightarrow> ustr \<Rightarrow> nat option" where
  "rfind c [] = None"
| "rfind c (x # xs) =
     (case rfind c xs of
        Some i \<Rightarrow> Some (Suc i)
      | None \<Rightarrow> (if x = c then Some 0 else None))"

text \<open>
  \<open>Path.stem\<close>: the name up to its last dot, when that dot is neither the first nor
  the last character of the name.
\<close>

definition path_stem :: "path \<Rightarrow> ustr" where
  "path_stem p =
     (let n = path_name p in
      case rfind 0x2E n of
        None \<Rightarrow> n
      | Some i \<Rightarrow> (if 0 < i \<and> i < length n - 1 then take i n else n))"

text \<open>\<open>Path.with_suffix\<close>: a path with an empty name is refused.\<close>

definition with_suffix :: "path \<Rightarrow> ustr \<Rightarrow> error + path" where
  "with_suffix p sfx =
     (if path_name p = [] then Inl (ValueError (asc ''empty name''))
      else Inr (p\<lparr>p_parts := butlast (p_parts p) @ [path_stem p @ sfx]\<rparr>))"

text \<open>
  One entry per millisecond of sound: \<open>len(audio)\<close> is the duration in milliseconds
  and slicing is by milliseconds.
\<close>

type_synonym audio = "int list"

datatype encoding = UTF8

datatype content =
    Dir
  | Media audio
  | Wav audio
  | Wav16kMono audio
  | TextFile encoding ustr

datatype log_event =
    LogStart
  | LogFfmpegOk
  | LogExtracting ustr ustr
  | LogChunked nat int
  | LogLoadModel ustr
  | LogTranscribing nat nat ustr
  | LogTranscribed nat
  | LogWritten path
  | LogAllDone
  | LogException error
  | LogTraceback error

datatype dialog = ShowWarning ustr ustr | ShowError ustr ustr

text \<open>The dictionary \<open>params\<close> that \<open>on_start\<close> hands to the worker.\<close>

record params =
  mp4_path :: path
  minutes :: int
  model :: ustr
  language :: ustr
  vad_ms :: int
  beam :: int
  cond_prev :: bool
  para_max :: int

text \<open>The form's variables.\<close>

record form =
  mp4_var :: ustr
  minutes_var :: int
  model_var :: ustr
  language_var :: ustr
  vad_ms_var :: int
  beam_var :: int
  cond_prev_var :: bool
  paragraph_max_var :: int

text \<open>
  Everything the program reads or changes: the files, \<open>AudioSegment.converter\<close>, the
  log box, the message boxes shown, the \<open>running\<close> flag, the progress bar and the
  worker thread started (with its arguments).
\<close>

record world =
  fs :: "path \<Rightarrow> content option"
  converter :: "ustr option"
  logbox :: "log_event list"
  dialogs :: "dialog list"
  running :: bool
  progress_value :: nat
  progress_maximum :: nat
  worker :: "params option"

text \<open>
  What the program calls and does not contain: the platform's path syntax
  (\<open>Path(s)\<close>, \<open>str(p)\<close>, and whether an absolute path needs a drive),
  \<open>shutil.which\<close>, and the recogniser (\<open>WhisperModel(name)\<close> fails or not;
  \<open>transcribe\<close> is given the model name, the path string, the language, the
  silence threshold, the beam size and the conditioning flag, and returns the texts
  of its segments).
\<close>

record env =
  windows :: bool
  parse_path :: "ustr \<Rightarrow> path"
  path_str :: "path \<Rightarrow> ustr"
  which :: "ustr \<Rightarrow> ustr option"
  load_model :: "ustr \<Rightarrow> error option"
  transcribe :: "ustr \<Rightarrow> ustr \<Rightarrow> ustr option \<Rightarrow> int \<Rightarrow> int \<Rightarrow> bool \<Rightarrow> error + ustr list"

definition is_absolute :: "env \<Rightarrow> path \<Rightarrow> bool" where
  "is_absolute e p \<longleftrightarrow> p_root p \<noteq> [] \<and> (windows e \<longrightarrow> p_drive p \<noteq> [])"

definition path_exists :: "path \<Rightarrow> world \<Rightarrow> bool" where
  "path_exists p w \<longleftrightarrow> fs w p \<noteq> None"

text \<open>Writing a file fails on a directory; \<open>mkdir(exist_ok=True)\<close> fails on a file.\<close>

definition fs_write :: "path \<Rightarrow> content \<Rightarrow> world \<Rightarrow> error + world" where
  "fs_write p c w =
     (if fs w p = Some Dir then Inl (OSError (asc ''is a directory''))
      else Inr (w\<lparr>fs := (fs w)(p \<mapsto> c)\<rparr>))"

definition mkdir_exist_ok :: "path \<Rightarrow> world \<Rightarrow> error + world" where
  "mkdir_exist_ok p w =
     (case fs w p of
        None \<Rightarrow> Inr (w\<lparr>fs := (fs w)(p \<mapsto> Dir)\<rparr>)
      | Some Dir \<Rightarrow> Inr w
      | Some _ \<Rightarrow> Inl (OSError (asc ''file exists'')))"

text \<open>\<open>AudioSegment.from_file\<close> and \<open>AudioSegment.from_wav\<close>.\<close>

definition from_file :: "path \<Rightarrow> world \<Rightarrow> error + audio" where
  "from_file p w =
     (case fs w p of
        Some (Media a) \<Rightarrow> Inr a
      | Some (Wav a) \<Rightarrow> Inr a
      | Some (Wav16kMono a) \<Rightarrow> Inr a
      | Some _ \<Rightarrow> Inl (CapabilityError (asc ''decoding failed''))
      | None \<Rightarrow> Inl (OSError (asc ''no such file'')))"

definition from_wav :: "path \<Rightarrow> world \<Rightarrow> error + audio" where
  "from_wav p w =
     (case fs w p of
        Some (Wav a) \<Rightarrow> Inr a
      | Some (Wav16kMono a) \<Rightarrow> Inr a
      | Some _ \<Rightarrow> Inl (CapabilityError (asc ''decoding failed''))
      | None \<Rightarrow> Inl (OSError (asc ''no such file'')))"

text \<open>\<open>App.log\<close> and \<open>App.progress_step\<close>.\<close>

definition log_line :: "log_event \<Rightarrow> world \<Rightarrow> world" where
  "log_line m w = w\<lparr>logbox := logbox w @ [m]\<rparr>"

definition progress_step :: "world \<Rightarrow> world" where
  "progress_step w = w\<lparr>progress_value := progress_value w + 1\<rparr>"

section \<open>ensure_ffmpeg\<close>

text \<open>
  The message of the \<open>RuntimeError\<close>, code point by code point. It reads: ffmpeg not
  found, please put ffmpeg.exe in the folder of this program, or add ffmpeg to PATH.
  \<open>hint_place\<close> and \<open>hint_path\<close> are the two pieces of advice in it.
\<close>

definition msg_no_ffmpeg :: ustr where
  "msg_no_ffmpeg =
     [0x627E, 0x4E0D, 0x5230, 0x20, 0x66, 0x66, 0x6D, 0x70, 0x65, 0x67, 0xFF0C, 0x8ACB,
      0x5C07, 0x20, 0x66, 0x66, 0x6D, 0x70, 0x65, 0x67, 0x2E, 0x65, 0x78, 0x65, 0x20,
      0x653E, 0x5728, 0x672C, 0x7A0B, 0x5F0F, 0x540C, 0x8CC7, 0x6599, 0x593E, 0xFF0C,
      0x6216, 0x628A, 0x20, 0x66, 0x66, 0x6D, 0x70, 0x65, 0x67, 0x20, 0x52A0, 0x5230,
      0x20, 0x50, 0x41, 0x54, 0x48, 0x3002]"

definition hint_place :: ustr where
  "hint_place =
     [0x5C07, 0x20, 0x66, 0x66, 0x6D, 0x70, 0x65, 0x67, 0x2E, 0x65, 0x78, 0x65, 0x20,
      0x653E, 0x5728, 0x672C, 0x7A0B, 0x5F0F, 0x540C, 0x8CC7, 0x6599, 0x593E]"

definition hint_path :: ustr where
  "hint_path =
     [0x628A, 0x20, 0x66, 0x66, 0x6D, 0x70, 0x65, 0x67, 0x20, 0x52A0, 0x5230, 0x20, 0x50,
      0x41, 0x54, 0x48]"

text \<open>\<open>a or b\<close> on results of \<open>shutil.which\<close>: \<open>None\<close> and the empty string are false.\<close>

definition py_or :: "ustr option \<Rightarrow> ustr option \<Rightarrow> ustr option" where
  "py_or a b = (case a of None \<Rightarrow> b | Some x \<Rightarrow> (if x = [] then b else Some x))"

definition ensure_ffmpeg :: "env \<Rightarrow> path \<Rightarrow> world \<Rightarrow> (error + ustr) \<times> world" where
  "ensure_ffmpeg e base_dir w =
     (let local_ffmpeg = joinpath base_dir (asc ''ffmpeg.exe'');
          ff = (if path_exists local_ffmpeg w then Some (path_str e local_ffmpeg)
                else py_or (which e (asc ''ffmpeg'')) (which e (asc ''ffmpeg.exe'')))
      in case ff of
           None \<Rightarrow> (Inl (RuntimeError msg_no_ffmpeg), w)
         | Some f \<Rightarrow>
             (if f = [] then (Inl (RuntimeError msg_no_ffmpeg), w)
              else (Inr f, w\<lparr>converter := Some f\<rparr>)))"

section \<open>extract_wav_from_mp4\<close>

definition extract_wav_from_mp4 :: "path \<Rightarrow> world \<Rightarrow> (error + path) \<times> world" where
  "extract_wav_from_mp4 mp4 w =
     (case with_suffix mp4 (asc ''.wav'') of
        Inl e \<Rightarrow> (Inl e, w)
      | Inr wav \<Rightarrow>
          (let w1 = log_line (LogExtracting (path_name mp4) (path_name wav)) w in
           case from_file mp4 w1 of
             Inl e \<Rightarrow> (Inl e, w1)
           | Inr a \<Rightarrow>
               (case fs_write wav (Wav a) w1 of
                  Inl e \<Rightarrow> (Inl e, w1)
                | Inr w2 \<Rightarrow> (Inr wav, w2))))"

section \<open>chunk_wav\<close>

text \<open>
  \<open>range(start, stop, step)\<close>: counting up for a positive step, down for a negative
  one, and a \<open>ValueError\<close> for step zero.
\<close>

function range_up :: "int \<Rightarrow> int \<Rightarrow> int \<Rightarrow> int list" where
  "range_up i stop step = (if 0 < step \<and> i < stop then i # range_up (i + step) stop step else [])"
  by pat_completeness auto
termination
  by (relation "measure (\<lambda>(i, stop, step). nat (stop - i))") auto

function range_down :: "int \<Rightarrow> int \<Rightarrow> int \<Rightarrow> int list" where
  "range_down i stop step = (if step < 0 \<and> stop < i then i # range_down (i + step) stop step else [])"
  by pat_completeness auto
termination
  by (relation "measure (\<lambda>(i, stop, step). nat (i - stop))") auto

definition py_range :: "int \<Rightarrow> int \<Rightarrow> int \<Rightarrow> error + int list" where
  "py_range start stop step =
     (if step = 0 then Inl (ValueError (asc ''range() arg 3 must not be zero''))
      else if 0 < step then Inr (range_up start stop step)
      else Inr (range_down start stop step))"

text \<open>
  \<open>audio[i:j]\<close> for \<open>0 \<le> i \<le> j\<close>: the milliseconds from \<open>i\<close> up to \<open>j\<close>, cut
  at the end of the sound.
\<close>

definition ms_slice :: "audio \<Rightarrow> int \<Rightarrow> int \<Rightarrow> audio" where
  "ms_slice a i j = take (nat j - nat i) (drop (nat i) a)"

text \<open>The format \<open>{n:03d}\<close> of a natural number: decimal digits, zero-padded to three.\<close>

function decimal :: "nat \<Rightarrow> ustr" where
  "decimal n = (if n < 10 then [0x30 + n] else decimal (n div 10) @ [0x30 + n mod 10])"
  by pat_completeness auto
termination
  by (relation "measure (\<lambda>n. n)") auto

definition fmt03 :: "nat \<Rightarrow> ustr" where
  "fmt03 n = replicate (3 - length (decimal n)) 0x30 @ decimal n"

text \<open>\<open>wav_path.parent / f"{wav_path.stem}.part{k:03d}.wav"\<close>\<close>

definition part_path :: "path \<Rightarrow> nat \<Rightarrow> path" where
  "part_path wav_path k =
     joinpath (path_parent wav_path) (path_stem wav_path @ asc ''.part'' @ fmt03 k @ asc ''.wav'')"

text \<open>
  What each round of the loop computes from its \<open>i\<close>: the index \<open>i // step\<close> and
  the segment \<open>audio[i:i+step]\<close>.
\<close>

definition chunk_segments :: "audio \<Rightarrow> int \<Rightarrow> error + (nat \<times> audio) list" where
  "chunk_segments a mins =
     (let step = mins * 60 * 1000 in
      case py_range 0 (int (length a)) step of
        Inl e \<Rightarrow> Inl e
      | Inr is \<Rightarrow> Inr (map (\<lambda>i. (nat (i div step), ms_slice a i (i + step))) is))"

text \<open>
  The export of each segment (resampled to 16 kHz mono) under its numbered name,
  collecting the paths in \<open>parts\<close>.
\<close>

fun export_parts ::
  "path \<Rightarrow> (nat \<times> audio) list \<Rightarrow> path list \<Rightarrow> world \<Rightarrow> (error + path list) \<times> world"
where
  "export_parts wav_path [] parts w = (Inr parts, w)"
| "export_parts wav_path ((k, seg) # rest) parts w =
     (let out = part_path wav_path k in
      case fs_write out (Wav16kMono seg) w of
        Inl e \<Rightarrow> (Inl e, w)
      | Inr w1 \<Rightarrow> export_parts wav_path rest (parts @ [out]) w1)"

definition chunk_wav :: "path \<Rightarrow> int \<Rightarrow> world \<Rightarrow> (error + path list) \<times> world" where
  "chunk_wav wav_path mins w =
     (case from_wav wav_path w of
        Inl e \<Rightarrow> (Inl e, w)
      | Inr a \<Rightarrow>
          (case chunk_segments a mins of
             Inl e \<Rightarrow> (Inl e, w)
           | Inr segs \<Rightarrow>
               (case export_parts wav_path segs [] w of
                  (Inl e, w1) \<Rightarrow> (Inl e, w1)
                | (Inr parts, w1) \<Rightarrow> (Inr parts, log_line (LogChunked (length parts) mins) w1))))"

section \<open>The pipeline\<close>

text \<open>
  \<open>str.lower\<close> restricted to the ASCII letters: no other character lowers to one
  of \<open>a\<close>, \<open>u\<close>, \<open>t\<close>, \<open>o\<close>, so the comparison with \<open>"auto"\<close> is the same.
\<close>

definition lower :: "ustr \<Rightarrow> ustr" where
  "lower s = map (\<lambda>c. if 0x41 \<le> c \<and> c \<le> 0x5A then c + 0x20 else c) s"

definition use_lang :: "ustr \<Rightarrow> ustr option" where
  "use_lang lang = (if lang = [] \<or> lower lang = asc ''auto'' then None else Some lang)"

text \<open>\<open>sep.join(xs)\<close>\<close>

fun str_join :: "ustr \<Rightarrow> ustr list \<Rightarrow> ustr" where
  "str_join sep [] = []"
| "str_join sep [x] = x"
| "str_join sep (x # y # r) = x @ sep @ str_join sep (y # r)"

text \<open>
  Lines 221 to 229: the call of the recogniser on one chunk, and the chunk's piece,
  the texts of its segments joined with no separator.
\<close>

definition piece_of :: "env \<Rightarrow> params \<Rightarrow> path \<Rightarrow> error + ustr" where
  "piece_of e p part =
     (case transcribe e (model p) (path_str e part) (use_lang (language p)) (vad_ms p) (beam p)
             (cond_prev p) of
        Inl err \<Rightarrow> Inl err
      | Inr segs \<Rightarrow> Inr (concat segs))"

text \<open>
  The loop \<open>for idx, part in enumerate(parts, 1)\<close>: one piece per chunk, appended to
  \<open>texts\<close> in the order of \<open>parts\<close>, and one step of the progress bar.
\<close>

fun transcribe_parts ::
  "env \<Rightarrow> params \<Rightarrow> nat \<Rightarrow> nat \<Rightarrow> path list \<Rightarrow> ustr list \<Rightarrow> world \<Rightarrow> (error + ustr list) \<times> world"
where
  "transcribe_parts e p n_parts idx [] texts w = (Inr texts, w)"
| "transcribe_parts e p n_parts idx (part # rest) texts w =
     (let w1 = log_line (LogTranscribing idx n_parts (path_name part)) w in
      case piece_of e p part of
        Inl err \<Rightarrow> (Inl err, w1)
      | Inr piece \<Rightarrow>
          transcribe_parts e p n_parts (Suc idx) rest (texts @ [piece]) (progress_step w1))"

text \<open>The body of the \<open>try\<close>: the error raised, if any, and the world it leaves.\<close>

definition run_try :: "env \<Rightarrow> path \<Rightarrow> params \<Rightarrow> world \<Rightarrow> error option \<times> world" where
  "run_try e base_dir p w =
     (case ensure_ffmpeg e base_dir w of
        (Inl err, w0) \<Rightarrow> (Some err, w0)
      | (Inr ff, w0) \<Rightarrow>
     (let w1 = log_line LogFfmpegOk w0 in
      case extract_wav_from_mp4 (mp4_path p) w1 of
        (Inl err, w2) \<Rightarrow> (Some err, w2)
      | (Inr wav, w2) \<Rightarrow>
     (case chunk_wav wav (minutes p) w2 of
        (Inl err, w3) \<Rightarrow> (Some err, w3)
      | (Inr parts, w3) \<Rightarrow>
     (let w4 = w3\<lparr>progress_value := 0, progress_maximum := length parts\<rparr>;
          w5 = log_line (LogLoadModel (model p)) w4 in
      case load_model e (model p) of
        Some err \<Rightarrow> (Some err, w5)
      | None \<Rightarrow>
     (case transcribe_parts e p (length parts) 1 parts [] w5 of
        (Inl err, w6) \<Rightarrow> (Some err, w6)
      | (Inr texts, w6) \<Rightarrow>
     (let full_txt = concat texts;
          w7 = log_line (LogTranscribed (length full_txt)) w6;
          paras = paragraphize full_txt (para_max p);
          outdir = joinpath base_dir (asc ''transcripts'') in
      case mkdir_exist_ok outdir w7 of
        Inl err \<Rightarrow> (Some err, w7)
      | Inr w8 \<Rightarrow>
     (let outfile = joinpath outdir (path_stem (mp4_path p) @ asc ''.txt'') in
      case fs_write outfile (TextFile UTF8 (str_join [0x0A, 0x0A] paras)) w8 of
        Inl err \<Rightarrow> (Some err, w8)
      | Inr w9 \<Rightarrow> (None, log_line LogAllDone (log_line (LogWritten outfile) w9)))))))))"

text \<open>
  The message box title of the \<open>except\<close> branch (it reads: error), and
  \<open>run_pipeline\<close> with its \<open>except\<close> and \<open>finally\<close>.
\<close>

definition title_error :: ustr where
  "title_error = [0x932F, 0x8AA4]"

definition run_pipeline :: "env \<Rightarrow> path \<Rightarrow> params \<Rightarrow> world \<Rightarrow> world" where
  "run_pipeline e base_dir p w =
     (case run_try e base_dir p w of
        (None, w1) \<Rightarrow> w1\<lparr>running := False\<rparr>
      | (Some err, w1) \<Rightarrow>
          (let w2 = log_line (LogTraceback err) (log_line (LogException err) w1) in
           w2\<lparr>dialogs := dialogs w2 @ [ShowError title_error (error_str err)], running := False\<rparr>))"

section \<open>on_start\<close>

text \<open>
  The texts of the two message boxes: choose a file first (title and body), file not
  found (title), cannot find (the start of the body, before the path).
\<close>

definition title_choose :: ustr where
  "title_choose = [0x8ACB, 0x9078, 0x64C7, 0x6A94, 0x6848]"

definition msg_choose :: ustr where
  "msg_choose =
     [0x8ACB, 0x5148, 0x8F38, 0x5165, 0x6216, 0x9078, 0x64C7, 0x8981, 0x8F49, 0x5BEB, 0x7684,
      0x20, 0x4D, 0x50, 0x34, 0x20, 0x6A94, 0x6848, 0x3002]"

definition title_not_found :: ustr where
  "title_not_found = [0x627E, 0x4E0D, 0x5230, 0x6A94, 0x6848]"

definition msg_not_found :: ustr where
  "msg_not_found = [0x7121, 0x6CD5, 0x627E, 0x5230, 0xFF1A]"

text \<open>Lines 172 to 175: the path the job will use.\<close>

definition resolve_input :: "env \<Rightarrow> path \<Rightarrow> ustr \<Rightarrow> path" where
  "resolve_input e base_dir mp4_input =
     (let mp4_path = parse_path e mp4_input in
      if \<not> is_absolute e mp4_path then joinpath base_dir (path_name mp4_path) else mp4_path)"

definition on_start :: "env \<Rightarrow> path \<Rightarrow> form \<Rightarrow> world \<Rightarrow> world" where
  "on_start e base_dir f w =
     (if running w then w
      else
        (let mp4_input = strip (mp4_var f) in
         if mp4_input = [] then w\<lparr>dialogs := dialogs w @ [ShowWarning title_choose msg_choose]\<rparr>
         else
           (let mp4_path = resolve_input e base_dir mp4_input in
            if \<not> path_exists mp4_path w
            then w\<lparr>dialogs := dialogs w @
                   [ShowError title_not_found (msg_not_found @ path_str e mp4_path)]\<rparr>
            else
              (let ps = \<lparr>mp4_path = mp4_path, minutes = minutes_var f, model = model_var f,
                         language = language_var f, vad_ms = vad_ms_var f, beam = beam_var f,
                         cond_prev = cond_prev_var f, para_max = paragraph_max_var f\<rparr>;
                   w1 = log_line LogStart (w\<lparr>running := True, progress_value := 0, logbox := []\<rparr>)
               in w1\<lparr>worker := Some ps\<rparr>))))"

section \<open>Example inputs\<close>

text \<open>
  The two transcripts of the specification's end-to-end scenarios (three sentences of
  five characters each; two sentences that fit one paragraph), and a text with spaces
  around its sentences (U+3000 is the ideographic space).
\<close>

definition three_sentences :: ustr where
  "three_sentences =
     [0x7B2C, 0x4E00, 0x53E5, 0x8A71, 0x3002, 0x7B2C, 0x4E8C, 0x53E5, 0x8A71, 0x3002,
      0x7B2C, 0x4E09, 0x53E5, 0x8A71, 0x3002]"

definition two_sentences :: ustr where
  "two_sentences =
     [0x4ECA, 0x5929, 0x5929, 0x6C23, 0x5F88, 0x597D, 0x3002, 0x6211, 0x5011, 0x53BB, 0x516C,
      0x5712, 0x6563, 0x6B65, 0x3002]"

definition spaced_text :: ustr where
  "spaced_text = [0x20, 0x61, 0x3002, 0x20, 0x3000, 0xFF01, 0x20, 0x62, 0x20]"

text \<open>
  A POSIX flavour of the path syntax for the examples: components are separated by
  a slash, a leading slash is the root, and empty and dot components are dropped.
\<close>

fun split_on :: "nat \<Rightarrow> ustr \<Rightarrow> ustr list" where
  "split_on c [] = [[]]"
| "split_on c (x # xs) =
     (if x = c then [] # split_on c xs else (x # hd (split_on c xs)) # tl (split_on c xs))"

definition posix_parse :: "ustr \<Rightarrow> path" where
  "posix_parse s =
     \<lparr>p_drive = [], p_root = (if s \<noteq> [] \<and> hd s = 0x2F then [0x2F] else []),
      p_parts = filter (\<lambda>q. q \<noteq> [] \<and> q \<noteq> [0x2E]) (split_on 0x2F s)\<rparr>"

definition posix_str :: "path \<Rightarrow> ustr" where
  "posix_str p =
     (if p_root p = [] \<and> p_parts p = [] then [0x2E] else p_root p @ str_join [0x2F] (p_parts p))"

text \<open>
  An installation in \<open>/app\<close> holding \<open>talk.mp4\<close> with 90 seconds of sound, a
  recogniser that returns two segments for the first chunk and one for the second,
  and \<open>ffmpeg\<close> on the search path (\<open>demo_env\<close>), only \<open>ffmpeg.exe\<close> on it
  (\<open>exe_env\<close>), neither (\<open>bare_env\<close>), or \<open>ffmpeg.exe\<close> in \<open>/app\<close>
  (\<open>local_world\<close>).
\<close>

definition demo_base :: path where
  "demo_base = \<lparr>p_drive = [], p_root = [0x2F], p_parts = [asc ''app'']\<rparr>"

definition demo_mp4 :: path where
  "demo_mp4 = \<lparr>p_drive = [], p_root = [0x2F], p_parts = [asc ''app'', asc ''talk.mp4'']\<rparr>"

definition demo_out :: path where
  "demo_out = \<lparr>p_drive = [], p_root = [0x2F],
      p_parts = [asc ''app'', asc ''transcripts'', asc ''talk.txt'']\<rparr>"

definition demo_env :: env where
  "demo_env =
     \<lparr>windows = False, parse_path = posix_parse, path_str = posix_str,
      which = (\<lambda>n. if n = asc ''ffmpeg'' then Some (asc ''/usr/bin/ffmpeg'') else None),
      load_model = (\<lambda>m. None),
      transcribe = (\<lambda>m s lang vad bm cond.
         if s = asc ''/app/talk.part000.wav''
         then Inr [[0x4ECA, 0x5929, 0x5929, 0x6C23], [0x5F88, 0x597D, 0x3002]]
         else Inr [[0x6211, 0x5011, 0x53BB, 0x516C, 0x5712, 0x6563, 0x6B65, 0x3002]])\<rparr>"

definition bare_env :: env where
  "bare_env = demo_env\<lparr>which := (\<lambda>n. None)\<rparr>"

definition exe_env :: env where
  "exe_env = demo_env\<lparr>which := (\<lambda>n. if n = asc ''ffmpeg.exe'' then Some (asc ''/opt/ffmpeg.exe'') else None)\<rparr>"

definition demo_world :: world where
  "demo_world =
     \<lparr>fs = (\<lambda>q. if q = demo_mp4 then Some (Media (replicate 90000 0))
                else if q = demo_base then Some Dir else None),
      converter = None, logbox = [], dialogs = [], running = False,
      progress_value = 0, progress_maximum = 100, worker = None\<rparr>"

definition local_world :: world where
  "local_world = demo_world\<lparr>fs := (fs demo_world)(joinpath demo_base (asc ''ffmpeg.exe'') \<mapsto> Media [])\<rparr>"

definition demo_params :: params where
  "demo_params =
     \<lparr>mp4_path = demo_mp4, minutes = 1, model = asc ''small'', language = asc ''zh'',
      vad_ms = 500, beam = 5, cond_prev = False, para_max = 170\<rparr>"

text \<open>
  The form filled in with a relative path into a subdirectory, once naming the
  file that \<open>/app\<close> holds and once a file that it does not.
\<close>

definition demo_form :: form where
  "demo_form =
     \<lparr>mp4_var = asc '' sub/talk.mp4 '', minutes_var = 20, model_var = asc ''large-v3'',
      language_var = asc ''zh'', vad_ms_var = 500, beam_var = 5, cond_prev_var = False,
      paragraph_max_var = 170\<rparr>"

definition lost_form :: form where
  "lost_form = demo_form\<lparr>mp4_var := asc ''sub/none.mp4''\<rparr>"

section \<open>Notions used in the proofs\<close>

text \<open>
  A closed sentence ends in its one mark and is stripped; an open sentence has no
  mark and is stripped. \<open>split_sents\<close> returns closed sentences followed by one open
  sentence, and a paragraph is a run of closed sentences, possibly followed by the
  open one.
\<close>

definition closed_sent :: "ustr \<Rightarrow> bool" where
  "closed_sent s \<longleftrightarrow>
     (\<exists>b d. s = b @ [d] \<and> is_term d \<and> (\<forall>c \<in> set b. \<not> is_term c) \<and> strip s = s)"

definition open_sent :: "ustr \<Rightarrow> bool" where
  "open_sent s \<longleftrightarrow> (\<forall>c \<in> set s. \<not> is_term c) \<and> strip s = s"

definition para_shape :: "ustr \<Rightarrow> bool" where
  "para_shape p \<longleftrightarrow> (\<exists>cs z. p = concat cs @ z \<and> (\<forall>s \<in> set cs. closed_sent s) \<and> open_sent z)"

text \<open>The first \<open>n\<close> windows of \<open>d\<close> milliseconds, each with its index.\<close>

definition windows_of :: "audio \<Rightarrow> nat \<Rightarrow> nat \<Rightarrow> (nat \<times> audio) list" where
  "windows_of a d n = map (\<lambda>k. (k, take d (drop (k * d) a))) [0..<n]"

text \<open>Reading a decimal numeral back: the inverse of \<open>decimal\<close> and of \<open>fmt03\<close>.\<close>

definition undecimal :: "ustr \<Rightarrow> nat" where
  "undecimal s = foldl (\<lambda>acc c. 10 * acc + (c - 0x30)) 0 s"

section \<open>Stripping\<close>

text \<open>
  \<open>strip\<close> returns the empty string exactly on blank strings, and otherwise a string
  whose first and last characters are not white space; such strings are its fixed
  points, and they are closed under concatenation. A sentence mark is not white
  space, so stripping a sentence that ends in its mark only removes leading space.
\<close>

lemma strip_Nil: "strip [] = []" by (simp add: strip_def)

lemma dropWhile_all_space: "(\<forall>x \<in> set (dropWhile isspace s). isspace x) \<longleftrightarrow> (\<forall>x \<in> set s. isspace x)"
proof
  assume h: "\<forall>x \<in> set (dropWhile isspace s). isspace x"
  have "dropWhile isspace s = []"
  proof (rule ccontr)
    assume n: "dropWhile isspace s \<noteq> []"
    then have "\<not> isspace (hd (dropWhile isspace s))" by (rule hd_dropWhile)
    moreover have "hd (dropWhile isspace s) \<in> set (dropWhile isspace s)" using n by simp
    ultimately show False using h by blast
  qed
  then show "\<forall>x \<in> set s. isspace x" by (simp add: dropWhile_eq_Nil_conv)
next
  assume "\<forall>x \<in> set s. isspace x"
  then show "\<forall>x \<in> set (dropWhile isspace s). isspace x"
    using set_dropWhileD by fastforce
qed

lemma strip_eq_Nil: "strip s = [] \<longleftrightarrow> (\<forall>c \<in> set s. isspace c)"
  by (simp add: strip_def dropWhile_eq_Nil_conv dropWhile_all_space)

lemma strip_fix_intro: "s = [] \<or> (\<not> isspace (hd s) \<and> \<not> isspace (last s)) \<Longrightarrow> strip s = s"
proof (cases "s = []")
  case True then show ?thesis by (simp add: strip_def)
next
  case False
  assume "s = [] \<or> (\<not> isspace (hd s) \<and> \<not> isspace (last s))"
  with False have a: "\<not> isspace (hd s)" and b: "\<not> isspace (last s)" by auto
  from a False have d: "dropWhile isspace s = s" by (cases s) auto
  from b False have "dropWhile isspace (rev s) = rev s" by (cases "rev s") (auto simp: last_rev hd_rev)
  with d show "strip s = s" by (simp add: strip_def)
qed

lemma strip_ends: "strip s \<noteq> [] \<Longrightarrow> \<not> isspace (hd (strip s)) \<and> \<not> isspace (last (strip s))"
proof -
  assume n: "strip s \<noteq> []"
  let ?d = "dropWhile isspace s"
  let ?e = "dropWhile isspace (rev ?d)"
  from n have e: "?e \<noteq> []" by (simp add: strip_def)
  have d: "?d \<noteq> []"
  proof
    assume a: "?d = []"
    show False using e unfolding a by simp
  qed
  have l: "\<not> isspace (hd ?e)" using e by (rule hd_dropWhile)
  have "last (strip s) = hd ?e" using e by (simp add: strip_def last_rev)
  with l have 1: "\<not> isspace (last (strip s))" by simp
  have h: "\<not> isspace (hd ?d)" using d by (rule hd_dropWhile)
  have "rev ?d = takeWhile isspace (rev ?d) @ ?e" by simp
  then have "?d = rev ?e @ rev (takeWhile isspace (rev ?d))"
    by (metis rev_append rev_rev_ident)
  then have "hd ?d = hd (rev ?e)" using e by (metis hd_append2 rev_is_Nil_conv)
  with h have "\<not> isspace (hd (strip s))" by (simp add: strip_def)
  with 1 show ?thesis by simp
qed

lemma strip_strip: "strip (strip s) = strip s"
  using strip_ends [of s] by (intro strip_fix_intro) auto

lemma strip_fix_iff: "strip s = s \<longleftrightarrow> s = [] \<or> (\<not> isspace (hd s) \<and> \<not> isspace (last s))"
  using strip_ends [of s] strip_fix_intro [of s] by (cases "s = []") auto

lemma strip_append_fix: "strip a = a \<Longrightarrow> strip b = b \<Longrightarrow> strip (a @ b) = a @ b"
  by (cases "a = []"; cases "b = []") (auto simp: strip_fix_iff)

lemma not_space_term: "is_term c \<Longrightarrow> \<not> isspace c"
  by (auto simp: is_term_def isspace_def)

lemma strip_mark_not_Nil: "is_term d \<Longrightarrow> strip (b @ [d]) \<noteq> []"
  by (auto simp: strip_eq_Nil not_space_term)

lemma strip_mark: "is_term d \<Longrightarrow> strip (b @ [d]) = dropWhile isspace b @ [d]"
proof -
  assume d: "is_term d"
  then have n: "\<not> isspace d" by (rule not_space_term)
  have "dropWhile isspace (b @ [d]) = dropWhile isspace b @ [d]"
    using n by (simp add: dropWhile_append dropWhile_eq_Nil_conv)
  then show ?thesis using n by (simp add: strip_def)
qed

section \<open>Splitting into sentences\<close>

text \<open>
  The list comprehension pairs each text with the mark after it. So a text without
  a mark is one sentence, and a text splits after its first mark. The sentences are
  stripped: closed ones followed by a single open one.
\<close>

lemma range2_0: "range2 0 = []" by (simp add: range2_def)

lemma range2_1: "range2 (Suc 0) = [0]" by (simp add: range2_def)

lemma range2_SS: "range2 (Suc (Suc n)) = 0 # map (\<lambda>i. i + 2) (range2 n)"
proof -
  have "[0 ..< Suc ((n + 1) div 2)] = 0 # map Suc [0 ..< (n + 1) div 2]"
    by (simp add: upt_conv_Cons map_Suc_upt del: upt_Suc)
  then show ?thesis by (simp add: range2_def comp_def)
qed

lemma join_pairs_Nil: "join_pairs [] = []"
  by (simp add: join_pairs_def range2_0)

lemma join_pairs_single: "join_pairs [a] = [strip a]"
  by (simp add: join_pairs_def range2_1 slice2_def)

lemma join_pairs_Cons2: "join_pairs (a # b # r) = strip (a @ b) # join_pairs r"
  by (simp add: join_pairs_def range2_SS slice2_def comp_def)

lemma re_split_not_Nil: "re_split txt \<noteq> []"
  by (induction "txt") auto

lemma re_split_plain: "\<forall>c \<in> set b. \<not> is_term c \<Longrightarrow> re_split b = [b]"
  by (induction b) auto

lemma re_split_mark:
  "\<forall>c \<in> set b. \<not> is_term c \<Longrightarrow> is_term d \<Longrightarrow> re_split (b @ d # rest) = b # [d] # re_split rest"
  by (induction b) auto

lemma split_sents_plain: "\<forall>c \<in> set b. \<not> is_term c \<Longrightarrow> split_sents b = [strip b]"
  by (simp add: split_sents_def re_split_plain join_pairs_single)

lemma split_sents_mark:
  "\<forall>c \<in> set b. \<not> is_term c \<Longrightarrow> is_term d \<Longrightarrow>
   split_sents (b @ d # rest) = strip (b @ [d]) # split_sents rest"
  by (simp add: split_sents_def re_split_mark join_pairs_Cons2)

lemma split_sents_stripped: "s \<in> set (split_sents x) \<Longrightarrow> strip s = s"
  by (auto simp: split_sents_def join_pairs_def strip_strip)

lemma closed_strip_mark:
  "is_term d \<Longrightarrow> \<forall>c \<in> set b. \<not> is_term c \<Longrightarrow> closed_sent (strip (b @ [d]))"
proof -
  assume d: "is_term d" and b: "\<forall>c \<in> set b. \<not> is_term c"
  have "\<forall>c \<in> set (dropWhile isspace b). \<not> is_term c"
    using b set_dropWhileD by fastforce
  with d show ?thesis
    unfolding closed_sent_def strip_strip
    by (intro exI [of _ "dropWhile isspace b"] exI [of _ d]) (simp add: strip_mark)
qed

lemma open_strip: "\<forall>c \<in> set b. \<not> is_term c \<Longrightarrow> open_sent (strip b)"
proof -
  assume b: "\<forall>c \<in> set b. \<not> is_term c"
  have "set (strip b) \<subseteq> set (dropWhile isspace b)"
    by (auto simp: strip_def dest: set_dropWhileD)
  then have "set (strip b) \<subseteq> set b"
    by (auto dest: set_dropWhileD)
  with b show ?thesis by (auto simp: open_sent_def strip_strip)
qed

lemma split_sents_shape:
  "\<exists>cs z. split_sents x = cs @ [z] \<and> (\<forall>s \<in> set cs. closed_sent s) \<and> open_sent z"
proof (induction x rule: length_induct)
  case (1 x)
  let ?b = "takeWhile (\<lambda>c. \<not> is_term c) x"
  let ?r = "dropWhile (\<lambda>c. \<not> is_term c) x"
  have b: "\<forall>c \<in> set ?b. \<not> is_term c" by (auto dest: set_takeWhileD)
  show ?case
  proof (cases ?r)
    case Nil
    then have "?b = x" by (metis takeWhile_dropWhile_id append_Nil2)
    with b have p: "\<forall>c \<in> set x. \<not> is_term c" by simp
    then have "split_sents x = [] @ [strip x]" by (simp add: split_sents_plain)
    moreover have "open_sent (strip x)" using p by (rule open_strip)
    ultimately show ?thesis by (intro exI [of _ "[]"] exI [of _ "strip x"]) simp
  next
    case (Cons d rest)
    then have d: "is_term d" by (metis hd_dropWhile list.sel(1) list.distinct(1))
    have x: "x = ?b @ d # rest" using Cons by (metis takeWhile_dropWhile_id)
    then have "length rest < length x"
      by (metis length_append length_Cons less_add_Suc2 add_Suc_right)
    with 1 obtain cs z where
      r: "split_sents rest = cs @ [z]" "\<forall>s \<in> set cs. closed_sent s" "open_sent z"
      by blast
    have "split_sents x = strip (?b @ [d]) # split_sents rest"
      using split_sents_mark [OF b d, of rest] x by simp
    with r(1) have "split_sents x = (strip (?b @ [d]) # cs) @ [z]" by simp
    moreover have "closed_sent (strip (?b @ [d]))" using d b by (rule closed_strip_mark)
    ultimately show ?thesis using r(2,3)
      by (intro exI [of _ "strip (?b @ [d]) # cs"] exI [of _ z]) simp
  qed
qed

lemma split_sents_closed_prefix:
  "\<forall>s \<in> set cs. closed_sent s \<Longrightarrow> split_sents (concat cs @ q) = cs @ split_sents q"
proof (induction cs)
  case Nil
  then show ?case by simp
next
  case (Cons s cs)
  then obtain b d where s: "s = b @ [d]" "is_term d" "\<forall>c \<in> set b. \<not> is_term c" "strip s = s"
    by (auto simp: closed_sent_def)
  have "split_sents (b @ d # (concat cs @ q)) = strip (b @ [d]) # split_sents (concat cs @ q)"
    using s(3,2) by (rule split_sents_mark)
  with s(1,4) Cons show ?case by simp
qed

lemma split_sents_open: "open_sent z \<Longrightarrow> split_sents z = [z]"
  by (simp add: open_sent_def split_sents_plain)

lemma open_Nil: "open_sent []" by (simp add: open_sent_def strip_Nil)

section \<open>Grouping into paragraphs\<close>

text \<open>
  On stripped sentences the running buffer is always stripped, so the flush appends
  the buffer itself and the loop is the greedy grouping. The rest are properties of
  that grouping, and an invariant of the loop that needs no assumption on the
  sentences: everything in \<open>buf\<close> is non-empty and stripped.
\<close>

lemma flush_fix: "strip cur = cur \<Longrightarrow> flush buf cur = buf @ spec_emit cur"
  by (simp add: flush_def spec_emit_def)

lemma para_loop_greedy:
  "\<forall>s \<in> set ss. strip s = s \<Longrightarrow> strip cur = cur \<Longrightarrow>
   (case para_loop t ss (buf, cur) of (b, c) \<Rightarrow> flush b c) = buf @ spec_greedy t cur ss"
proof (induction ss arbitrary: buf cur)
  case Nil
  then show ?case by (simp add: flush_fix)
next
  case (Cons s ss)
  have s: "strip s = s" and ss: "\<forall>x \<in> set ss. strip x = x" using Cons.prems(1) by auto
  show ?case
  proof (cases "int (length cur) + int (length s) < t")
    case True
    have "strip (cur @ s) = cur @ s" using Cons.prems(2) s by (rule strip_append_fix)
    with True Cons.IH [OF ss, of "cur @ s" buf] show ?thesis by simp
  next
    case False
    with Cons.IH [OF ss s, of "flush buf cur"] Cons.prems(2) show ?thesis
      by (simp add: flush_fix)
  qed
qed

lemma group_sents_greedy: "\<forall>s \<in> set ss. strip s = s \<Longrightarrow> group_sents t ss = spec_greedy t [] ss"
  using para_loop_greedy [of ss "[]" t "[]"] by (simp add: group_sents_def strip_Nil)

lemma paragraphize_greedy: "paragraphize x t = spec_greedy t [] (split_sents x)"
  by (simp add: paragraphize_def group_sents_greedy split_sents_stripped)

lemma concat_emit: "concat (spec_emit cur) = cur" by (simp add: spec_emit_def)

lemma concat_greedy: "concat (spec_greedy t cur ss) = cur @ concat ss"
  by (induction ss arbitrary: cur) (auto simp: concat_emit)

lemma greedy_long:
  "t \<le> int (length s) \<Longrightarrow> s \<noteq> [] \<Longrightarrow>
   spec_greedy t cur (pre @ s # post) = spec_greedy t cur pre @ [s] @ spec_greedy t [] post"
proof (induction pre arbitrary: cur)
  case Nil
  have "spec_greedy t s post = [s] @ spec_greedy t [] post"
    using Nil by (cases post) (auto simp: spec_emit_def)
  with Nil show ?case by simp
next
  case (Cons a pre)
  then show ?case by simp
qed

lemma greedy_short:
  "int (length cur) + int (length (concat ss)) < t \<Longrightarrow> spec_greedy t cur ss = spec_emit (cur @ concat ss)"
  by (induction ss arbitrary: cur) auto

lemma greedy_not_Nil: "p \<in> set (spec_greedy t cur ss) \<Longrightarrow> p \<noteq> []"
  by (induction ss arbitrary: cur) (auto simp: spec_emit_def split: if_splits)

lemma para_shape_resplit: "para_shape p \<Longrightarrow> concat (split_sents p) = p"
  by (auto simp: para_shape_def split_sents_closed_prefix split_sents_open)

lemma greedy_shape:
  "\<forall>s \<in> set cl. closed_sent s \<Longrightarrow> \<forall>s \<in> set ss. closed_sent s \<Longrightarrow> open_sent z \<Longrightarrow>
   p \<in> set (spec_greedy t (concat cl) (ss @ [z])) \<Longrightarrow> para_shape p"
proof (induction ss arbitrary: cl)
  case Nil
  have a: "para_shape (concat cl)"
    unfolding para_shape_def using Nil(1) open_Nil by (intro exI [of _ cl] exI [of _ "[]"]) simp
  have b: "para_shape z"
    unfolding para_shape_def using Nil(3) by (intro exI [of _ "[]"] exI [of _ z]) simp
  have c: "para_shape (concat cl @ z)"
    unfolding para_shape_def using Nil(1,3) by (intro exI [of _ cl] exI [of _ z]) simp
  from Nil(4) a b c show ?case by (auto simp: spec_emit_def split: if_splits)
next
  case (Cons s ss)
  have s: "closed_sent s" and ss: "\<forall>x \<in> set ss. closed_sent x" using Cons.prems(2) by auto
  have a: "para_shape (concat cl)"
    unfolding para_shape_def using Cons.prems(1) open_Nil
    by (intro exI [of _ cl] exI [of _ "[]"]) simp
  have one: "\<forall>x \<in> set [s]. closed_sent x" using s by simp
  have more: "\<forall>x \<in> set (cl @ [s]). closed_sent x" using s Cons.prems(1) by simp
  show ?case
  proof (cases "t \<le> int (length (concat cl)) + int (length s)")
    case True
    with Cons.prems(4) have "p \<in> set (spec_emit (concat cl)) \<or> p \<in> set (spec_greedy t (concat [s]) (ss @ [z]))"
      by simp
    then show ?thesis
      using a Cons.IH [OF one ss Cons.prems(3)] by (auto simp: spec_emit_def split: if_splits)
  next
    case False
    with Cons.prems(4) have "p \<in> set (spec_greedy t (concat (cl @ [s])) (ss @ [z]))" by simp
    then show ?thesis using Cons.IH [OF more ss Cons.prems(3)] by blast
  qed
qed

lemma paragraphize_shape: "p \<in> set (paragraphize x t) \<Longrightarrow> para_shape p"
proof -
  assume p: "p \<in> set (paragraphize x t)"
  obtain cs z where
    r: "split_sents x = cs @ [z]" "\<forall>s \<in> set cs. closed_sent s" "open_sent z"
    using split_sents_shape by blast
  have "p \<in> set (spec_greedy t (concat []) (cs @ [z]))"
    using p r(1) by (simp add: paragraphize_greedy)
  then show ?thesis using greedy_shape [of "[]" cs z p t] r(2,3) by simp
qed

lemma flush_ok:
  "\<forall>p \<in> set buf. p \<noteq> [] \<and> strip p = p \<Longrightarrow> \<forall>p \<in> set (flush buf cur). p \<noteq> [] \<and> strip p = p"
  by (simp add: flush_def strip_strip)

lemma para_loop_ok:
  "\<forall>p \<in> set buf. p \<noteq> [] \<and> strip p = p \<Longrightarrow>
   \<forall>p \<in> set (case para_loop t ss (buf, cur) of (b, c) \<Rightarrow> flush b c). p \<noteq> [] \<and> strip p = p"
proof (induction ss arbitrary: buf cur)
  case Nil
  then show ?case using flush_ok [of buf cur] by simp
next
  case (Cons s ss)
  show ?case
  proof (cases "int (length cur) + int (length s) < t")
    case True
    then show ?thesis using Cons.IH [OF Cons.prems, of "cur @ s"] by simp
  next
    case False
    have "\<forall>p \<in> set (flush buf cur). p \<noteq> [] \<and> strip p = p"
      using Cons.prems by (rule flush_ok)
    then show ?thesis using False Cons.IH [of "flush buf cur" s] by simp
  qed
qed

lemma group_sents_Nil: "group_sents t [] = []"
  by (simp add: group_sents_def flush_def strip_def)

section \<open>The formatter on the examples\<close>

lemmas para_eval =
  paragraphize_def group_sents_def split_sents_def join_pairs_def range2_def slice2_def
  strip_def isspace_def is_term_def flush_def spec_emit_def asc_def

lemma split_three_sentences:
  "split_sents three_sentences =
     [[0x7B2C, 0x4E00, 0x53E5, 0x8A71, 0x3002], [0x7B2C, 0x4E8C, 0x53E5, 0x8A71, 0x3002],
      [0x7B2C, 0x4E09, 0x53E5, 0x8A71, 0x3002], []]"
  by (simp add: para_eval three_sentences_def)

lemma split_two_sentences:
  "split_sents two_sentences =
     [[0x4ECA, 0x5929, 0x5929, 0x6C23, 0x5F88, 0x597D, 0x3002],
      [0x6211, 0x5011, 0x53BB, 0x516C, 0x5712, 0x6563, 0x6B65, 0x3002], []]"
  by (simp add: para_eval two_sentences_def)

text \<open>
  The two end-to-end scenarios of the specification: target 10 gives one paragraph
  per sentence; target 170 gives a single paragraph equal to the input.
\<close>

lemma scenario_three_paragraphs:
  "paragraphize three_sentences 10 =
     [[0x7B2C, 0x4E00, 0x53E5, 0x8A71, 0x3002], [0x7B2C, 0x4E8C, 0x53E5, 0x8A71, 0x3002],
      [0x7B2C, 0x4E09, 0x53E5, 0x8A71, 0x3002]]"
  by (simp add: paragraphize_def group_sents_def split_three_sentences flush_def strip_def
      isspace_def)

lemma scenario_one_paragraph: "paragraphize two_sentences 170 = [two_sentences]"
  unfolding paragraphize_def group_sents_def split_two_sentences
  by (simp add: flush_def strip_def isspace_def two_sentences_def)

lemma spaced_paragraphs: "paragraphize spaced_text 4 = [[0x61, 0x3002, 0xFF01], [0x62]]"
  by (simp add: para_eval spaced_text_def)

section \<open>The claims about the paragraph formatter\<close>

text \<open>
  C1. The loop of \<open>paragraphize\<close> appends a sentence to the running buffer exactly
  when the length of the buffer plus the length of the sentence is below the target;
  otherwise (the sum reaches or exceeds the target, a tie included) it flushes the
  buffer and starts a new one with that sentence. So, for every input and target, the
  result is the greedy grouping of the sentences that the specification describes.
\<close>

theorem paragraphize_greedy_flush:
  "paragraphize x t = spec_greedy t [] (split_sents x) \<and>
   para_loop t (s # ss) (buf, cur) =
     para_loop t ss (if int (length cur) + int (length s) < t then (buf, cur @ s)
                     else (flush buf cur, s))"
proof
  have "\<forall>y \<in> set (split_sents x). strip y = y" by (simp add: split_sents_stripped)
  then have "group_sents t (split_sents x) = spec_greedy t [] (split_sents x)"
    by (rule group_sents_greedy)
  then show "paragraphize x t = spec_greedy t [] (split_sents x)" by (simp add: paragraphize_def)
next
  show "para_loop t (s # ss) (buf, cur) =
     para_loop t ss (if int (length cur) + int (length s) < t then (buf, cur @ s)
                     else (flush buf cur, s))"
    by (cases "int (length cur) + int (length s) < t") simp_all
qed

text \<open>
  C1 at the specification's second scenario: target 10, three sentences of five
  characters, three paragraphs.
\<close>

theorem paragraphize_greedy_flush_witness:
  "spec_greedy 10 [] (split_sents three_sentences) =
     [[0x7B2C, 0x4E00, 0x53E5, 0x8A71, 0x3002], [0x7B2C, 0x4E8C, 0x53E5, 0x8A71, 0x3002],
      [0x7B2C, 0x4E09, 0x53E5, 0x8A71, 0x3002]]"
  using paragraphize_greedy_flush [of three_sentences 10 "[]" "[]" "[]" "[]"]
  by (simp add: scenario_three_paragraphs)

text \<open>
  C2, as amended. The sentence marks are exactly the four code points U+3002, U+FF01,
  U+FF1F and U+FF1B (the ideographic full stop and the fullwidth exclamation mark,
  question mark and semicolon). A text without a mark is one sentence; a text
  \<open>b @ d # rest\<close> whose first mark is \<open>d\<close> splits right after \<open>d\<close>, the mark staying
  with the sentence before it. The ASCII marks are not among the four, so no split
  happens at them.
\<close>

theorem split_at_fullwidth_marks:
  "(is_term c \<longleftrightarrow> c = 0x3002 \<or> c = 0xFF01 \<or> c = 0xFF1F \<or> c = 0xFF1B) \<and>
   \<not> is_term 0x2E \<and> \<not> is_term 0x21 \<and> \<not> is_term 0x3F \<and>
   ((\<forall>c \<in> set b. \<not> is_term c) \<longrightarrow> split_sents b = [strip b]) \<and>
   ((\<forall>c \<in> set b. \<not> is_term c) \<longrightarrow> is_term d \<longrightarrow>
      split_sents (b @ d # rest) = strip (b @ [d]) # split_sents rest)"
proof (intro conjI impI)
  show "is_term c \<longleftrightarrow> c = 0x3002 \<or> c = 0xFF01 \<or> c = 0xFF1F \<or> c = 0xFF1B"
    by (simp add: is_term_def)
  show "\<not> is_term 0x2E" "\<not> is_term 0x21" "\<not> is_term 0x3F"
    by (simp_all add: is_term_def)
next
  assume "\<forall>c \<in> set b. \<not> is_term c"
  then show "split_sents b = [strip b]" by (rule split_sents_plain)
next
  assume "\<forall>c \<in> set b. \<not> is_term c" and "is_term d"
  then show "split_sents (b @ d # rest) = strip (b @ [d]) # split_sents rest"
    by (rule split_sents_mark)
qed

text \<open>
  C2 as amended, at a text with ASCII marks and one fullwidth question mark: the
  only split is after the fullwidth mark.
\<close>

theorem split_at_fullwidth_marks_witness:
  "split_sents (asc ''a.b'' @ 0xFF1F # asc '' c!'') = [asc ''a.b'' @ [0xFF1F], asc ''c!'']"
proof -
  have b: "\<forall>c \<in> set (asc ''a.b''). \<not> is_term c" by (simp add: asc_def is_term_def)
  have d: "is_term 0xFF1F" by (simp add: is_term_def)
  have r: "\<forall>c \<in> set (asc '' c!''). \<not> is_term c" by (simp add: asc_def is_term_def)
  have 1: "split_sents (asc ''a.b'' @ 0xFF1F # asc '' c!'') =
      strip (asc ''a.b'' @ [0xFF1F]) # split_sents (asc '' c!'')"
    using split_at_fullwidth_marks [of "0xFF1F" "asc ''a.b''" "0xFF1F" "asc '' c!''"] b d by blast
  have 2: "split_sents (asc '' c!'') = [strip (asc '' c!'')]"
    using split_at_fullwidth_marks [of "0xFF1F" "asc '' c!''" "0xFF1F" "[]"] r by blast
  show ?thesis unfolding 1 2 by (simp add: strip_def isspace_def asc_def)
qed

text \<open>
  C2 as stated fails: a text with an ASCII full stop, exclamation mark and question
  mark is a single sentence, and stays one paragraph even for a target of 2.
\<close>

theorem ascii_marks_counterexample:
  "split_sents (asc ''Hi. Yes! No?'') = [asc ''Hi. Yes! No?''] \<and>
   paragraphize (asc ''Hi. Yes! No?'') 2 = [asc ''Hi. Yes! No?'']"
  by (simp add: para_eval)

text \<open>
  C4. Joining the paragraphs with no separator gives the sentences of the input
  (split and stripped) joined in order: no character of a sentence is dropped,
  repeated or moved, and no sentence is lost.
\<close>

theorem paragraphize_concat: "concat (paragraphize x t) = concat (split_sents x)"
proof -
  have "concat (paragraphize x t) = concat (spec_greedy t [] (split_sents x))"
    by (simp add: paragraphize_greedy)
  also have "\<dots> = [] @ concat (split_sents x)" by (rule concat_greedy)
  finally show ?thesis by simp
qed

text \<open>
  C4 at the three-sentence example: there the sentences have no space around them,
  so the paragraphs rejoin to the input itself.
\<close>

theorem paragraphize_concat_witness:
  "concat (paragraphize three_sentences 10) = concat (split_sents three_sentences) \<and>
   concat (paragraphize three_sentences 10) = three_sentences"
  using paragraphize_concat [of three_sentences 10]
  by (simp add: scenario_three_paragraphs) (simp add: three_sentences_def)

text \<open>
  C5. A paragraph that \<open>paragraphize\<close> produced with target \<open>t\<close> and that is shorter
  than \<open>t\<close> comes back as the one-element list of itself when given to
  \<open>paragraphize\<close> again with the same target.
\<close>

theorem paragraphize_idempotent:
  "p \<in> set (paragraphize x t) \<Longrightarrow> int (length p) < t \<Longrightarrow> paragraphize p t = [p]"
proof -
  assume p: "p \<in> set (paragraphize x t)" and l: "int (length p) < t"
  have c: "concat (split_sents p) = p" using p by (intro para_shape_resplit paragraphize_shape)
  have n: "p \<noteq> []" using p by (auto simp: paragraphize_greedy dest: greedy_not_Nil)
  have "spec_greedy t [] (split_sents p) = spec_emit ([] @ concat (split_sents p))"
    using l c by (intro greedy_short) simp
  with c n show ?thesis by (simp add: paragraphize_greedy spec_emit_def)
qed

text \<open>
  C5 at the second paragraph of the three-sentence example, target 10.
\<close>

theorem paragraphize_idempotent_witness:
  "[0x7B2C, 0x4E8C, 0x53E5, 0x8A71, 0x3002] \<in> set (paragraphize three_sentences 10) \<and>
   int (length [0x7B2C, 0x4E8C, 0x53E5, 0x8A71, 0x3002 :: nat]) < 10 \<and>
   paragraphize [0x7B2C, 0x4E8C, 0x53E5, 0x8A71, 0x3002] 10 = [[0x7B2C, 0x4E8C, 0x53E5, 0x8A71, 0x3002]]"
proof -
  have h: "[0x7B2C, 0x4E8C, 0x53E5, 0x8A71, 0x3002] \<in> set (paragraphize three_sentences 10)"
    by (simp add: scenario_three_paragraphs)
  have l: "int (length [0x7B2C, 0x4E8C, 0x53E5, 0x8A71, 0x3002 :: nat]) < 10" by simp
  from h l paragraphize_idempotent [OF h l] show ?thesis by blast
qed

text \<open>
  C6. The empty input gives no paragraph, whatever the target. A non-empty sentence
  of the input whose length is at least the target is a paragraph of its own, whole:
  the result is the paragraphs of the sentences before it, then that sentence, then
  the paragraphs of the sentences after it.
\<close>

theorem long_sentence_own_paragraph:
  "paragraphize [] t = [] \<and>
   (split_sents x = pre @ s # post \<longrightarrow> t \<le> int (length s) \<longrightarrow> s \<noteq> [] \<longrightarrow>
      paragraphize x t = group_sents t pre @ [s] @ group_sents t post)"
proof
  show "paragraphize [] t = []"
    by (simp add: paragraphize_greedy split_sents_plain strip_def spec_emit_def)
  show "split_sents x = pre @ s # post \<longrightarrow> t \<le> int (length s) \<longrightarrow> s \<noteq> [] \<longrightarrow>
      paragraphize x t = group_sents t pre @ [s] @ group_sents t post"
  proof (intro impI)
    assume sp: "split_sents x = pre @ s # post" and l: "t \<le> int (length s)" and n: "s \<noteq> []"
    have "\<forall>y \<in> set (split_sents x). strip y = y" by (simp add: split_sents_stripped)
    then have a: "\<forall>y \<in> set pre. strip y = y" and b: "\<forall>y \<in> set post. strip y = y"
      unfolding sp by simp_all
    have "paragraphize x t = spec_greedy t [] (pre @ s # post)" by (simp add: paragraphize_greedy sp)
    also have "\<dots> = spec_greedy t [] pre @ [s] @ spec_greedy t [] post" using l n by (rule greedy_long)
    finally show "paragraphize x t = group_sents t pre @ [s] @ group_sents t post"
      by (simp add: group_sents_greedy a b)
  qed
qed

text \<open>
  C6 at the three-sentence example with target 3: the second sentence (five
  characters) stands alone.
\<close>

theorem long_sentence_own_paragraph_witness:
  "split_sents three_sentences =
     [[0x7B2C, 0x4E00, 0x53E5, 0x8A71, 0x3002]] @ [0x7B2C, 0x4E8C, 0x53E5, 0x8A71, 0x3002] #
     [[0x7B2C, 0x4E09, 0x53E5, 0x8A71, 0x3002], []] \<and>
   (3::int) \<le> int (length [0x7B2C, 0x4E8C, 0x53E5, 0x8A71, 0x3002 :: nat]) \<and>
   paragraphize three_sentences 3 =
     group_sents 3 [[0x7B2C, 0x4E00, 0x53E5, 0x8A71, 0x3002]] @
     [[0x7B2C, 0x4E8C, 0x53E5, 0x8A71, 0x3002]] @
     group_sents 3 [[0x7B2C, 0x4E09, 0x53E5, 0x8A71, 0x3002], []]"
proof -
  have sp: "split_sents three_sentences =
     [[0x7B2C, 0x4E00, 0x53E5, 0x8A71, 0x3002]] @ [0x7B2C, 0x4E8C, 0x53E5, 0x8A71, 0x3002] #
     [[0x7B2C, 0x4E09, 0x53E5, 0x8A71, 0x3002], []]"
    by (simp add: split_three_sentences)
  have l: "(3::int) \<le> int (length [0x7B2C, 0x4E8C, 0x53E5, 0x8A71, 0x3002 :: nat])" by simp
  have n: "[0x7B2C, 0x4E8C, 0x53E5, 0x8A71, 0x3002] \<noteq> ([]::ustr)" by simp
  from long_sentence_own_paragraph [of 3 three_sentences
      "[[0x7B2C, 0x4E00, 0x53E5, 0x8A71, 0x3002]]" "[0x7B2C, 0x4E8C, 0x53E5, 0x8A71, 0x3002]"
      "[[0x7B2C, 0x4E09, 0x53E5, 0x8A71, 0x3002], []]"] sp l n
  show ?thesis by blast
qed

text \<open>
  C9. Every paragraph returned is non-empty and neither begins nor ends with a
  white-space character, so an empty or blank sentence slot never becomes a
  paragraph.
\<close>

theorem paragraphs_stripped:
  "p \<in> set (paragraphize x t) \<Longrightarrow>
   p \<noteq> [] \<and> \<not> isspace (hd p) \<and> \<not> isspace (last p) \<and> strip p = p"
proof -
  assume p: "p \<in> set (paragraphize x t)"
  have "\<forall>p \<in> set (group_sents t (split_sents x)). p \<noteq> [] \<and> strip p = p"
    unfolding group_sents_def by (rule para_loop_ok) simp
  with p have "p \<noteq> [] \<and> strip p = p" unfolding paragraphize_def by blast
  then show ?thesis using strip_fix_iff [of p] by auto
qed

text \<open>
  C9 at a text with spaces before, between and after its sentences.
\<close>

theorem paragraphs_stripped_witness:
  "[0x62] \<in> set (paragraphize spaced_text 4) \<and>
   ([0x62] \<noteq> ([]::ustr) \<and> \<not> isspace (hd [0x62]) \<and> \<not> isspace (last [0x62]) \<and> strip [0x62] = [0x62])"
proof -
  have h: "[0x62] \<in> set (paragraphize spaced_text 4)" by (simp add: spaced_paragraphs)
  from h paragraphs_stripped [OF h] show ?thesis by blast
qed

section \<open>The range of the loop in the chunker\<close>

text \<open>
  For a positive step, \<open>range(i, stop, step)\<close> is \<open>i, i + step, ...\<close> with
  \<open>ceil((stop - i) / step)\<close> elements; counting down from 0 to a length gives nothing.
\<close>

lemma upt_map_shift: "map f [0..<Suc m] = f 0 # map (\<lambda>k. f (Suc k)) [0..<m]"
  by (simp add: upt_conv_Cons map_Suc_upt [symmetric] del: upt_Suc)

lemma range_up_count_step:
  "0 < step \<Longrightarrow> i < stop \<Longrightarrow>
   nat ((stop - i + step - 1) div step) = Suc (nat ((stop - (i + step) + step - 1) div step))"
proof -
  assume s: "0 < step" and l: "i < stop"
  have "(stop - i + step - 1) div step = (stop - i - 1 + step) div step" by (simp add: algebra_simps)
  also have "\<dots> = (stop - i - 1) div step + 1" by (rule div_add_self2) (use s in auto)
  finally have e: "(stop - i + step - 1) div step = (stop - i - 1) div step + 1" .
  have "0 \<le> (stop - i - 1) div step" using s l by (simp add: pos_imp_zdiv_nonneg_iff)
  with e show ?thesis by (simp add: algebra_simps nat_add_distrib)
qed

lemma range_up_count_stop:
  "0 < step \<Longrightarrow> \<not> i < stop \<Longrightarrow> nat ((stop - i + step - 1) div step) = 0"
proof -
  assume s: "0 < step" and l: "\<not> i < stop"
  then have "stop - i + step - 1 < step" by simp
  then have "(stop - i + step - 1) div step \<le> 0"
  proof (cases "0 \<le> stop - i + step - 1")
    case True
    then show ?thesis using \<open>stop - i + step - 1 < step\<close> by (simp add: div_pos_pos_trivial)
  next
    case False
    then show ?thesis using s by (simp add: div_neg_pos_less0 less_imp_le)
  qed
  then show ?thesis by simp
qed

lemma range_up_map:
  "0 < step \<Longrightarrow>
   range_up i stop step = map (\<lambda>k. i + int k * step) [0..<nat ((stop - i + step - 1) div step)]"
proof (induction i stop step rule: range_up.induct)
  case (1 i stop step)
  show ?case
  proof (cases "i < stop")
    case True
    have ih: "range_up (i + step) stop step =
        map (\<lambda>k. (i + step) + int k * step) [0..<nat ((stop - (i + step) + step - 1) div step)]"
      using 1 True by simp
    have "range_up i stop step = i # range_up (i + step) stop step"
      using 1(2) True by simp
    also have "\<dots> = map (\<lambda>k. i + int k * step) [0..<Suc (nat ((stop - (i + step) + step - 1) div step))]"
      unfolding ih upt_map_shift by (simp add: algebra_simps)
    finally show ?thesis using range_up_count_step [OF 1(2) True] by simp
  next
    case False
    then show ?thesis using range_up_count_stop [OF 1(2) False] by simp
  qed
qed

lemma range_down_from_0: "range_down 0 (int n) step = []"
  by simp

section \<open>Windows of the sound\<close>



lemma plan_windows:
  assumes s: "0 < step"
  shows "map (\<lambda>i. (nat (i div step), ms_slice a i (i + step))) (range_up 0 (int (length a)) step) =
     windows_of a (nat step) ((length a + nat step - 1) div nat step)"
proof -
  let ?d = "nat step"
  let ?n = "(length a + ?d - 1) div ?d"
  have d: "0 < ?d" and ds: "int ?d = step" using s by simp_all
  have "int (length a) - 0 + step - 1 = int (length a + ?d - 1)" using d ds by linarith
  then have "(int (length a) - 0 + step - 1) div step = int ?n"
    using ds by (simp only: zdiv_int)
  then have n: "nat ((int (length a) - 0 + step - 1) div step) = ?n" by simp
  have r: "range_up 0 (int (length a)) step = map (\<lambda>k. 0 + int k * step) [0..<?n]"
    using range_up_map [OF s, of 0 "int (length a)"] n by simp
  have idx: "nat (int k * step div step) = k" for k using s by simp
  have sl: "ms_slice a (int k * step) (int k * step + step) = take ?d (drop (k * ?d) a)" for k
  proof -
    have 1: "nat (int k * step) = k * ?d" using s by (simp add: nat_mult_distrib)
    have "int k * step + step = int (Suc k) * step" by (simp add: algebra_simps)
    then have 2: "nat (int k * step + step) = Suc k * ?d"
      using s by (simp only: nat_mult_distrib nat_int)
    show ?thesis unfolding ms_slice_def 1 2 by simp
  qed
  show ?thesis unfolding r windows_of_def by (simp add: comp_def idx sl)
qed

lemma chunk_segments_windows:
  assumes "0 < mins"
  shows "chunk_segments a mins =
     Inr (windows_of a (nat (mins * 60 * 1000))
        ((length a + nat (mins * 60 * 1000) - 1) div nat (mins * 60 * 1000)))"
proof -
  have s: "0 < mins * 60 * 1000" using assms by simp
  then have z: "mins * 60 * 1000 \<noteq> 0" by simp
  show ?thesis
    unfolding chunk_segments_def Let_def py_range_def
    using s z plan_windows [OF s, of a] by (simp only: if_False if_True sum.case)
qed

lemma chunk_segments_zero:
  "chunk_segments a 0 = Inl (ValueError (asc ''range() arg 3 must not be zero''))"
  by (simp add: chunk_segments_def py_range_def)

lemma chunk_segments_negative: "mins < 0 \<Longrightarrow> chunk_segments a mins = Inr []"
proof -
  assume "mins < 0"
  then have "\<not> 0 < mins * 60 * 1000" "mins * 60 * 1000 \<noteq> 0" by simp_all
  then show ?thesis
    unfolding chunk_segments_def Let_def py_range_def
    by (simp only: if_False range_down_from_0 sum.case list.map)
qed


lemma length_windows: "length (windows_of a d n) = n"
  by (simp add: windows_of_def)

lemma fst_windows: "map fst (windows_of a d n) = [0..<n]"
  by (simp add: windows_of_def comp_def)






lemma chunk_segments_indices: "chunk_segments a mins = Inr segs \<Longrightarrow> map fst segs = [0..<length segs]"
proof -
  assume cs: "chunk_segments a mins = Inr segs"
  consider "mins < 0" | "mins = 0" | "0 < mins" by linarith
  then show ?thesis
  proof cases
    case 1
    then have "chunk_segments a mins = Inr []" by (rule chunk_segments_negative)
    with cs show ?thesis by simp
  next
    case 2
    with cs show ?thesis by (simp add: chunk_segments_zero)
  next
    case 3
    from chunk_segments_windows [OF 3, of a] cs show ?thesis
      by (auto simp: fst_windows length_windows)
  qed
qed

section \<open>The part files\<close>

text \<open>
  The three-digit numbering is injective, so the part files have different paths, no
  export overwrites an earlier one, and each file holds its segment when the loop is
  done.
\<close>

lemma undecimal_snoc: "undecimal (s @ [c]) = 10 * undecimal s + (c - 0x30)"
  by (simp add: undecimal_def)

lemma undecimal_decimal: "undecimal (decimal n) = n"
proof (induction n rule: decimal.induct)
  case (1 n)
  show ?case
  proof (cases "n < 10")
    case True
    then show ?thesis by (simp add: undecimal_def)
  next
    case False
    then have "decimal n = decimal (n div 10) @ [0x30 + n mod 10]" by simp
    then have "undecimal (decimal n) = 10 * undecimal (decimal (n div 10)) + n mod 10"
      by (simp only: undecimal_snoc add_diff_cancel_left')
    with 1 False show ?thesis by simp
  qed
qed

lemma undecimal_zeros: "undecimal (replicate m 0x30 @ s) = undecimal s"
proof -
  have "foldl (\<lambda>acc c. 10 * acc + (c - 0x30)) 0 (replicate m (0x30::nat)) = (0::nat)"
    by (induction m) simp_all
  then show ?thesis by (simp add: undecimal_def)
qed

lemma undecimal_fmt03: "undecimal (fmt03 n) = n"
  by (simp only: fmt03_def undecimal_zeros undecimal_decimal)

lemma fmt03_inj: "fmt03 j = fmt03 k \<Longrightarrow> j = k"
  by (metis undecimal_fmt03)

lemma part_path_inj: "part_path wav j = part_path wav k \<Longrightarrow> j = k"
proof -
  assume e: "part_path wav j = part_path wav k"
  let ?nm = "\<lambda>k. path_stem wav @ asc ''.part'' @ fmt03 k @ asc ''.wav''"
  have ne: "?nm i \<noteq> []" for i by (simp add: asc_def)
  have "p_parts (part_path wav i) = butlast (p_parts wav) @ [?nm i]" for i
    using ne [of i] by (simp add: part_path_def joinpath_def path_parent_def)
  with e have "?nm j = ?nm k" by (metis append1_eq_conv)
  then have "fmt03 j = fmt03 k" by simp
  then show ?thesis by (rule fmt03_inj)
qed

lemma export_parts_result:
  "export_parts wav segs parts w = (Inr parts', w') \<Longrightarrow>
   parts' = parts @ map (\<lambda>(k, seg). part_path wav k) segs"
proof (induction segs arbitrary: parts w)
  case Nil
  then show ?case by simp
next
  case (Cons a segs)
  obtain k seg where a: "a = (k, seg)" by (cases a)
  from Cons.prems obtain w1 where
    w1: "fs_write (part_path wav k) (Wav16kMono seg) w = Inr w1"
    and r: "export_parts wav segs (parts @ [part_path wav k]) w1 = (Inr parts', w')"
    unfolding a by (auto simp: Let_def split: sum.splits)
  from Cons.IH [OF r] show ?case by (simp add: a)
qed

lemma fs_write_fs: "fs_write q c w = Inr w1 \<Longrightarrow> fs w1 = (fs w)(q \<mapsto> c)"
  by (auto simp: fs_write_def split: if_splits)

lemma export_parts_other:
  "export_parts wav segs parts w = (Inr parts', w') \<Longrightarrow>
   \<forall>(k, seg) \<in> set segs. part_path wav k \<noteq> q \<Longrightarrow> fs w' q = fs w q"
proof (induction segs arbitrary: parts w)
  case Nil
  then show ?case by simp
next
  case (Cons a segs)
  obtain k seg where a: "a = (k, seg)" by (cases a)
  from Cons.prems(1) obtain w1 where
    w1: "fs_write (part_path wav k) (Wav16kMono seg) w = Inr w1"
    and r: "export_parts wav segs (parts @ [part_path wav k]) w1 = (Inr parts', w')"
    unfolding a by (auto simp: Let_def split: sum.splits)
  have "fs w' q = fs w1 q" using Cons.IH [OF r] Cons.prems(2) by simp
  also have "\<dots> = fs w q" using fs_write_fs [OF w1] Cons.prems(2) by (auto simp: a)
  finally show ?case .
qed

lemma export_parts_files:
  "export_parts wav segs parts w = (Inr parts', w') \<Longrightarrow> distinct (map fst segs) \<Longrightarrow>
   (k, seg) \<in> set segs \<Longrightarrow> fs w' (part_path wav k) = Some (Wav16kMono seg)"
proof (induction segs arbitrary: parts w)
  case Nil
  then show ?case by simp
next
  case (Cons a segs)
  obtain j sj where a: "a = (j, sj)" by (cases a)
  from Cons.prems(1) obtain w1 where
    w1: "fs_write (part_path wav j) (Wav16kMono sj) w = Inr w1"
    and r: "export_parts wav segs (parts @ [part_path wav j]) w1 = (Inr parts', w')"
    unfolding a by (auto simp: Let_def split: sum.splits)
  have dist: "distinct (map fst segs)" and fresh: "j \<notin> fst ` set segs"
    using Cons.prems(2) by (simp_all add: a)
  show ?case
  proof (cases "(k, seg) \<in> set segs")
    case True
    then show ?thesis using Cons.IH [OF r dist] by simp
  next
    case False
    with Cons.prems(3) have e: "k = j" "seg = sj" by (simp_all add: a)
    have "\<forall>(i, s) \<in> set segs. part_path wav i \<noteq> part_path wav j"
      using fresh part_path_inj by force
    then have "fs w' (part_path wav j) = fs w1 (part_path wav j)"
      using export_parts_other [OF r] by simp
    also have "\<dots> = Some (Wav16kMono sj)" using fs_write_fs [OF w1] by simp
    finally show ?thesis by (simp add: e)
  qed
qed

lemma chunk_wav_parts:
  assumes fw: "from_wav wav w = Inr a" and cs: "chunk_segments a mins = Inr segs"
    and cw: "chunk_wav wav mins w = (Inr parts, w1)"
  shows "parts = map (\<lambda>(k, seg). part_path wav k) segs \<and>
         (distinct (map fst segs) \<longrightarrow>
            (\<forall>(k, seg) \<in> set segs. fs w1 (part_path wav k) = Some (Wav16kMono seg)))"
proof -
  from cw fw cs obtain w0 where
    e: "export_parts wav segs [] w = (Inr parts, w0)"
    and w1: "w1 = log_line (LogChunked (length parts) mins) w0"
    by (auto simp: chunk_wav_def split: prod.splits sum.splits)
  have f: "fs w1 = fs w0" by (simp add: w1 log_line_def)
  have "parts = map (\<lambda>(k, seg). part_path wav k) segs"
    using export_parts_result [OF e] by simp
  moreover have "fs w1 (part_path wav k) = Some (Wav16kMono seg)"
    if "distinct (map fst segs)" "(k, seg) \<in> set segs" for k seg
    unfolding f using e that by (rule export_parts_files)
  ultimately show ?thesis by blast
qed

lemma chunk_wav_segments:
  assumes cw: "chunk_wav wav mins w = (Inr parts, w1)" and f: "fs w wav = Some (Wav a)"
  shows "\<exists>segs. chunk_segments a mins = Inr segs \<and> parts = map (part_path wav) [0..<length segs]"
proof -
  have fw: "from_wav wav w = Inr a" using f by (simp add: from_wav_def)
  from cw fw obtain segs where cs: "chunk_segments a mins = Inr segs"
    by (auto simp: chunk_wav_def split: sum.splits)
  have "parts = map (\<lambda>(k, seg). part_path wav k) segs"
    using chunk_wav_parts [OF fw cs cw] by blast
  also have "\<dots> = map (part_path wav) (map fst segs)"
    by (simp add: comp_def case_prod_unfold)
  also have "\<dots> = map (part_path wav) [0..<length segs]"
    using chunk_segments_indices [OF cs] by simp
  finally show ?thesis using cs by blast
qed

section \<open>The claim about the chunker\<close>



section \<open>Facts about the pipeline\<close>

lemma msg_names_both: "\<exists>a b c. msg_no_ffmpeg = a @ hint_place @ b @ hint_path @ c"
proof -
  have "msg_no_ffmpeg =
      [0x627E, 0x4E0D, 0x5230, 0x20, 0x66, 0x66, 0x6D, 0x70, 0x65, 0x67, 0xFF0C, 0x8ACB] @
      hint_place @ [0xFF0C, 0x6216] @ hint_path @ [0x3002]"
    by (simp add: msg_no_ffmpeg_def hint_place_def hint_path_def)
  then show ?thesis by blast
qed

lemma ensure_ffmpeg_local:
  "path_exists (joinpath base (asc ''ffmpeg.exe'')) w \<Longrightarrow>
   path_str e (joinpath base (asc ''ffmpeg.exe'')) \<noteq> [] \<Longrightarrow>
   ensure_ffmpeg e base w =
     (Inr (path_str e (joinpath base (asc ''ffmpeg.exe''))),
      w\<lparr>converter := Some (path_str e (joinpath base (asc ''ffmpeg.exe'')))\<rparr>)"
  by (simp add: ensure_ffmpeg_def Let_def)

lemma ensure_ffmpeg_which1:
  "\<not> path_exists (joinpath base (asc ''ffmpeg.exe'')) w \<Longrightarrow>
   which e (asc ''ffmpeg'') = Some f \<Longrightarrow> f \<noteq> [] \<Longrightarrow>
   ensure_ffmpeg e base w = (Inr f, w\<lparr>converter := Some f\<rparr>)"
  by (simp add: ensure_ffmpeg_def Let_def py_or_def)

lemma ensure_ffmpeg_which2:
  "\<not> path_exists (joinpath base (asc ''ffmpeg.exe'')) w \<Longrightarrow>
   which e (asc ''ffmpeg'') = None \<Longrightarrow> which e (asc ''ffmpeg.exe'') = Some g \<Longrightarrow> g \<noteq> [] \<Longrightarrow>
   ensure_ffmpeg e base w = (Inr g, w\<lparr>converter := Some g\<rparr>)"
  by (simp add: ensure_ffmpeg_def Let_def py_or_def)

lemma ensure_ffmpeg_missing:
  "\<not> path_exists (joinpath base (asc ''ffmpeg.exe'')) w \<Longrightarrow>
   which e (asc ''ffmpeg'') = None \<Longrightarrow> which e (asc ''ffmpeg.exe'') = None \<Longrightarrow>
   ensure_ffmpeg e base w = (Inl (RuntimeError msg_no_ffmpeg), w)"
  by (simp add: ensure_ffmpeg_def Let_def py_or_def)

lemma run_pipeline_missing:
  assumes "ensure_ffmpeg e base w = (Inl err, w)"
  shows "run_pipeline e base p w =
     w\<lparr>logbox := logbox w @ [LogException err, LogTraceback err],
       dialogs := dialogs w @ [ShowError title_error (error_str err)], running := False\<rparr>"
  using assms by (simp add: run_pipeline_def run_try_def log_line_def Let_def)

lemma transcribe_parts_pieces:
  "transcribe_parts e p n idx parts texts w = (Inr texts', w') \<Longrightarrow>
   \<exists>new. texts' = texts @ new \<and> list_all2 (\<lambda>part t. piece_of e p part = Inr t) parts new"
proof (induction parts arbitrary: idx texts w)
  case Nil
  then show ?case by simp
next
  case (Cons part rest)
  from Cons.prems obtain piece where
    pc: "piece_of e p part = Inr piece"
    and r: "transcribe_parts e p n (Suc idx) rest (texts @ [piece])
        (progress_step (log_line (LogTranscribing idx n (path_name part)) w)) = (Inr texts', w')"
    by (auto simp: Let_def split: sum.splits)
  from Cons.IH [OF r] obtain new where
    n: "texts' = (texts @ [piece]) @ new" "list_all2 (\<lambda>part t. piece_of e p part = Inr t) rest new"
    by blast
  show ?case
    using n pc by (intro exI [of _ "piece # new"]) simp
qed

lemma extract_wav_path:
  "extract_wav_from_mp4 mp4 w = (Inr wav, w1) \<Longrightarrow> with_suffix mp4 (asc ''.wav'') = Inr wav"
  by (auto simp: extract_wav_from_mp4_def Let_def split: sum.splits)

lemma ensure_ffmpeg_fs: "ensure_ffmpeg e base w = (r, w0) \<Longrightarrow> fs w0 = fs w"
  by (auto simp: ensure_ffmpeg_def Let_def split: option.splits if_splits)

lemma from_file_fs: "fs w1 = fs w \<Longrightarrow> from_file q w1 = from_file q w"
  by (simp add: from_file_def)

lemma extract_wav_audio:
  assumes "extract_wav_from_mp4 mp4 w = (Inr wav, w2)"
  shows "\<exists>a. from_file mp4 w = Inr a \<and> fs w2 wav = Some (Wav a)"
proof -
  let ?w1 = "log_line (LogExtracting (path_name mp4) (path_name wav)) w"
  from assms have ws: "with_suffix mp4 (asc ''.wav'') = Inr wav" by (rule extract_wav_path)
  from assms ws obtain a where a: "from_file mp4 ?w1 = Inr a"
    and wr: "fs_write wav (Wav a) ?w1 = Inr w2"
    by (auto simp: extract_wav_from_mp4_def Let_def split: sum.splits)
  have "from_file mp4 ?w1 = from_file mp4 w" by (rule from_file_fs) (simp add: log_line_def)
  with a have "from_file mp4 w = Inr a" by simp
  moreover have "fs w2 wav = Some (Wav a)" using fs_write_fs [OF wr] by simp
  ultimately show ?thesis by blast
qed

lemma run_try_fragments:
  assumes "run_try e base p w = (None, w')"
  shows "\<exists>wav a segs texts.
     with_suffix (mp4_path p) (asc ''.wav'') = Inr wav \<and>
     from_file (mp4_path p) w = Inr a \<and>
     chunk_segments a (minutes p) = Inr segs \<and>
     length texts = length segs \<and>
     (\<forall>k < length segs. piece_of e p (part_path wav k) = Inr (texts ! k)) \<and>
     fs w' (joinpath (joinpath base (asc ''transcripts'')) (path_stem (mp4_path p) @ asc ''.txt'')) =
       Some (TextFile UTF8 (str_join [0x0A, 0x0A] (paragraphize (concat texts) (para_max p))))"
proof -
  let ?outdir = "joinpath base (asc ''transcripts'')"
  let ?outfile = "joinpath ?outdir (path_stem (mp4_path p) @ asc ''.txt'')"
  from assms obtain ff w0 where ef: "ensure_ffmpeg e base w = (Inr ff, w0)"
    unfolding run_try_def by (auto split: prod.splits sum.splits)
  from assms ef obtain wav w2 where
    ex: "extract_wav_from_mp4 (mp4_path p) (log_line LogFfmpegOk w0) = (Inr wav, w2)"
    unfolding run_try_def by (auto simp: Let_def split: prod.splits sum.splits)
  from assms ef ex obtain parts w3 where cw: "chunk_wav wav (minutes p) w2 = (Inr parts, w3)"
    unfolding run_try_def by (auto simp: Let_def split: prod.splits sum.splits)
  let ?w5 = "log_line (LogLoadModel (model p)) (w3\<lparr>progress_value := 0, progress_maximum := length parts\<rparr>)"
  from assms ef ex cw have lm: "load_model e (model p) = None"
    unfolding run_try_def by (auto simp: Let_def split: prod.splits sum.splits option.splits)
  from assms ef ex cw lm obtain texts w6 where
    tp: "transcribe_parts e p (length parts) 1 parts [] ?w5 = (Inr texts, w6)"
    unfolding run_try_def by (auto simp: Let_def split: prod.splits sum.splits)
  let ?w7 = "log_line (LogTranscribed (length (concat texts))) w6"
  from assms ef ex cw lm tp obtain w8 where mk: "mkdir_exist_ok ?outdir ?w7 = Inr w8"
    unfolding run_try_def by (auto simp: Let_def split: prod.splits sum.splits)
  let ?c = "TextFile UTF8 (str_join [0x0A, 0x0A] (paragraphize (concat texts) (para_max p)))"
  from assms ef ex cw lm tp mk obtain w9 where
    wr: "fs_write ?outfile ?c w8 = Inr w9"
    and fin: "w' = log_line LogAllDone (log_line (LogWritten ?outfile) w9)"
    unfolding run_try_def by (auto simp: Let_def split: prod.splits sum.splits)
  have "fs w' ?outfile = fs w9 ?outfile" by (simp add: fin log_line_def)
  also have "\<dots> = Some ?c" using fs_write_fs [OF wr] by simp
  finally have out: "fs w' ?outfile = Some ?c" .
  have ws: "with_suffix (mp4_path p) (asc ''.wav'') = Inr wav" using ex by (rule extract_wav_path)
  from extract_wav_audio [OF ex] obtain a where
    a1: "from_file (mp4_path p) (log_line LogFfmpegOk w0) = Inr a" and a2: "fs w2 wav = Some (Wav a)"
    by blast
  have "fs (log_line LogFfmpegOk w0) = fs w"
    using ensure_ffmpeg_fs [OF ef] by (simp add: log_line_def)
  then have "from_file (mp4_path p) (log_line LogFfmpegOk w0) = from_file (mp4_path p) w"
    by (rule from_file_fs)
  with a1 have a: "from_file (mp4_path p) w = Inr a" by simp
  from chunk_wav_segments [OF cw a2] obtain segs where
    cs: "chunk_segments a (minutes p) = Inr segs"
    and num: "parts = map (part_path wav) [0..<length segs]"
    by blast
  from transcribe_parts_pieces [OF tp]
  have pcs: "list_all2 (\<lambda>part t. piece_of e p part = Inr t) parts texts" by simp
  have len: "length texts = length segs"
    using list_all2_lengthD [OF pcs] num by (metis length_map length_upt diff_zero)
  have each: "\<forall>k < length segs. piece_of e p (part_path wav k) = Inr (texts ! k)"
  proof (intro allI impI)
    fix k assume k: "k < length segs"
    then have "k < length parts" using len list_all2_lengthD [OF pcs] by simp
    then have "piece_of e p (parts ! k) = Inr (texts ! k)"
      using pcs by (simp add: list_all2_conv_all_nth)
    moreover have "parts ! k = part_path wav k" using k by (subst num) simp
    ultimately show "piece_of e p (part_path wav k) = Inr (texts ! k)" by simp
  qed
  from ws a cs len each out show ?thesis by blast
qed

section \<open>The pipeline on the examples\<close>

lemmas path_eval =
  joinpath_def path_name_def path_parent_def path_stem_def with_suffix_def part_path_def
  posix_str_def posix_parse_def asc_def fmt03_def

lemma demo_ensure:
  "ensure_ffmpeg demo_env demo_base demo_world =
     (Inr (asc ''/usr/bin/ffmpeg''), demo_world\<lparr>converter := Some (asc ''/usr/bin/ffmpeg'')\<rparr>)"
  by (simp add: ensure_ffmpeg_def demo_env_def demo_base_def demo_world_def demo_mp4_def
      path_exists_def py_or_def Let_def path_eval)

lemma demo_wav: "with_suffix demo_mp4 (asc ''.wav'') =
    Inr \<lparr>p_drive = [], p_root = [0x2F], p_parts = [asc ''app'', asc ''talk.wav'']\<rparr>"
  by (simp add: demo_mp4_def path_eval)

lemma demo_segments:
  "chunk_segments (replicate 90000 0) 1 =
     Inr [(0, replicate 60000 0), (1, replicate 30000 0)]"
  by (simp add: chunk_segments_def py_range_def ms_slice_def Let_def)

lemmas pipeline_eval =
  run_try_def ensure_ffmpeg_def extract_wav_from_mp4_def chunk_wav_def piece_of_def
  from_file_def from_wav_def fs_write_def mkdir_exist_ok_def log_line_def progress_step_def
  path_exists_def py_or_def use_lang_def lower_def Let_def

lemma demo_run_ok: "fst (run_try demo_env demo_base demo_params demo_world) = None"
  by (simp add: pipeline_eval path_eval demo_env_def demo_base_def demo_params_def
      demo_world_def demo_mp4_def demo_segments)

lemma demo_no_local: "\<not> path_exists (joinpath demo_base (asc ''ffmpeg.exe'')) demo_world"
  by (simp add: path_exists_def demo_world_def demo_base_def demo_mp4_def joinpath_def asc_def)

lemma demo_local: "path_exists (joinpath demo_base (asc ''ffmpeg.exe'')) local_world"
  by (simp add: path_exists_def local_world_def)

lemma demo_form_input: "strip (mp4_var demo_form) = asc ''sub/talk.mp4''"
  by (simp add: demo_form_def strip_def isspace_def asc_def)

lemma lost_form_input: "strip (mp4_var lost_form) = asc ''sub/none.mp4''"
  by (simp add: lost_form_def strip_def isspace_def asc_def)

lemma demo_parse:
  "parse_path demo_env (asc ''sub/talk.mp4'') =
     \<lparr>p_drive = [], p_root = [], p_parts = [asc ''sub'', asc ''talk.mp4'']\<rparr>"
  by (simp add: demo_env_def posix_parse_def asc_def)

lemma lost_parse:
  "parse_path demo_env (asc ''sub/none.mp4'') =
     \<lparr>p_drive = [], p_root = [], p_parts = [asc ''sub'', asc ''none.mp4'']\<rparr>"
  by (simp add: demo_env_def posix_parse_def asc_def)

lemma demo_audio: "from_file (mp4_path demo_params) demo_world = Inr (replicate 90000 0)"
  by (simp add: from_file_def demo_params_def demo_world_def)

lemma demo_piece0:
  "piece_of demo_env demo_params
     (part_path \<lparr>p_drive = [], p_root = [0x2F], p_parts = [asc ''app'', asc ''talk.wav'']\<rparr> 0) =
   Inr [0x4ECA, 0x5929, 0x5929, 0x6C23, 0x5F88, 0x597D, 0x3002]"
  by (simp add: piece_of_def demo_env_def path_eval numeral_2_eq_2)

lemma demo_piece1:
  "piece_of demo_env demo_params
     (part_path \<lparr>p_drive = [], p_root = [0x2F], p_parts = [asc ''app'', asc ''talk.wav'']\<rparr> 1) =
   Inr [0x6211, 0x5011, 0x53BB, 0x516C, 0x5712, 0x6563, 0x6B65, 0x3002]"
  by (simp add: piece_of_def demo_env_def path_eval numeral_2_eq_2)

lemma demo_out_path:
  "joinpath (joinpath demo_base (asc ''transcripts'')) (path_stem (mp4_path demo_params) @ asc ''.txt'') =
   demo_out"
  by (simp add: demo_base_def demo_params_def demo_mp4_def demo_out_def path_eval)

section \<open>The claims about the pipeline and the form\<close>

text \<open>
  C7. \<open>ensure_ffmpeg\<close> returns the path of \<open>ffmpeg.exe\<close> in the base directory when
  that file exists; otherwise what the search path gives for \<open>ffmpeg\<close>, otherwise what
  it gives for \<open>ffmpeg.exe\<close>. When none of the three is found it raises the
  \<open>RuntimeError\<close> whose message holds both pieces of advice (put the tool in the
  program's folder, or add it to the path), and the world is as before;
  \<open>run_pipeline\<close> then leaves every file as it was, logs the error, shows it in a
  message box and clears \<open>running\<close>.
\<close>

theorem ensure_ffmpeg_resolution:
  "(path_exists (joinpath base (asc ''ffmpeg.exe'')) w \<longrightarrow>
      path_str e (joinpath base (asc ''ffmpeg.exe'')) \<noteq> [] \<longrightarrow>
      fst (ensure_ffmpeg e base w) = Inr (path_str e (joinpath base (asc ''ffmpeg.exe'')))) \<and>
   (\<not> path_exists (joinpath base (asc ''ffmpeg.exe'')) w \<longrightarrow>
      which e (asc ''ffmpeg'') = Some f \<longrightarrow> f \<noteq> [] \<longrightarrow>
      fst (ensure_ffmpeg e base w) = Inr f) \<and>
   (\<not> path_exists (joinpath base (asc ''ffmpeg.exe'')) w \<longrightarrow>
      which e (asc ''ffmpeg'') = None \<longrightarrow> which e (asc ''ffmpeg.exe'') = Some g \<longrightarrow> g \<noteq> [] \<longrightarrow>
      fst (ensure_ffmpeg e base w) = Inr g) \<and>
   (\<not> path_exists (joinpath base (asc ''ffmpeg.exe'')) w \<longrightarrow>
      which e (asc ''ffmpeg'') = None \<longrightarrow> which e (asc ''ffmpeg.exe'') = None \<longrightarrow>
      ensure_ffmpeg e base w = (Inl (RuntimeError msg_no_ffmpeg), w) \<and>
      (\<exists>a b c. msg_no_ffmpeg = a @ hint_place @ b @ hint_path @ c) \<and>
      fs (run_pipeline e base p w) = fs w \<and>
      run_pipeline e base p w =
        w\<lparr>logbox := logbox w @
              [LogException (RuntimeError msg_no_ffmpeg), LogTraceback (RuntimeError msg_no_ffmpeg)],
          dialogs := dialogs w @ [ShowError title_error msg_no_ffmpeg],
          running := False\<rparr>)"
proof (intro conjI impI)
  assume "path_exists (joinpath base (asc ''ffmpeg.exe'')) w"
    and "path_str e (joinpath base (asc ''ffmpeg.exe'')) \<noteq> []"
  then show "fst (ensure_ffmpeg e base w) = Inr (path_str e (joinpath base (asc ''ffmpeg.exe'')))"
    by (simp add: ensure_ffmpeg_local)
next
  assume "\<not> path_exists (joinpath base (asc ''ffmpeg.exe'')) w"
    and "which e (asc ''ffmpeg'') = Some f" and "f \<noteq> []"
  then show "fst (ensure_ffmpeg e base w) = Inr f" by (simp add: ensure_ffmpeg_which1)
next
  assume "\<not> path_exists (joinpath base (asc ''ffmpeg.exe'')) w"
    and "which e (asc ''ffmpeg'') = None" and "which e (asc ''ffmpeg.exe'') = Some g" and "g \<noteq> []"
  then show "fst (ensure_ffmpeg e base w) = Inr g" by (simp add: ensure_ffmpeg_which2)
next
  assume h: "\<not> path_exists (joinpath base (asc ''ffmpeg.exe'')) w"
    "which e (asc ''ffmpeg'') = None" "which e (asc ''ffmpeg.exe'') = None"
  then show m: "ensure_ffmpeg e base w = (Inl (RuntimeError msg_no_ffmpeg), w)"
    by (rule ensure_ffmpeg_missing)
  show "\<exists>a b c. msg_no_ffmpeg = a @ hint_place @ b @ hint_path @ c" by (rule msg_names_both)
  show "fs (run_pipeline e base p w) = fs w"
    by (simp add: run_pipeline_missing [OF m])
  show "run_pipeline e base p w =
        w\<lparr>logbox := logbox w @
              [LogException (RuntimeError msg_no_ffmpeg), LogTraceback (RuntimeError msg_no_ffmpeg)],
          dialogs := dialogs w @ [ShowError title_error msg_no_ffmpeg],
          running := False\<rparr>"
    by (simp add: run_pipeline_missing [OF m])
qed

text \<open>
  C7 on the examples: one installation for each of the four cases.
\<close>

theorem ensure_ffmpeg_resolution_witness:
  "fst (ensure_ffmpeg demo_env demo_base local_world) = Inr (asc ''/app/ffmpeg.exe'') \<and>
   fst (ensure_ffmpeg demo_env demo_base demo_world) = Inr (asc ''/usr/bin/ffmpeg'') \<and>
   fst (ensure_ffmpeg exe_env demo_base demo_world) = Inr (asc ''/opt/ffmpeg.exe'') \<and>
   ensure_ffmpeg bare_env demo_base demo_world = (Inl (RuntimeError msg_no_ffmpeg), demo_world) \<and>
   fs (run_pipeline bare_env demo_base demo_params demo_world) = fs demo_world \<and>
   dialogs (run_pipeline bare_env demo_base demo_params demo_world) =
     [ShowError title_error msg_no_ffmpeg]"
proof -
  have s: "path_str demo_env (joinpath demo_base (asc ''ffmpeg.exe'')) = asc ''/app/ffmpeg.exe''"
    by (simp add: demo_env_def demo_base_def path_eval)
  then have n: "path_str demo_env (joinpath demo_base (asc ''ffmpeg.exe'')) \<noteq> []"
    by (simp add: asc_def)
  have 1: "fst (ensure_ffmpeg demo_env demo_base local_world) = Inr (asc ''/app/ffmpeg.exe'')"
    using ensure_ffmpeg_resolution [of demo_base local_world demo_env "[]" "[]" demo_params]
      demo_local n s by simp
  have w1: "which demo_env (asc ''ffmpeg'') = Some (asc ''/usr/bin/ffmpeg'')"
    by (simp add: demo_env_def)
  have 2: "fst (ensure_ffmpeg demo_env demo_base demo_world) = Inr (asc ''/usr/bin/ffmpeg'')"
    using ensure_ffmpeg_resolution [of demo_base demo_world demo_env "asc ''/usr/bin/ffmpeg''" "[]"
        demo_params] demo_no_local w1
    by (simp add: asc_def)
  have w2: "which exe_env (asc ''ffmpeg'') = None"
    "which exe_env (asc ''ffmpeg.exe'') = Some (asc ''/opt/ffmpeg.exe'')"
    by (simp_all add: exe_env_def asc_def)
  have 3: "fst (ensure_ffmpeg exe_env demo_base demo_world) = Inr (asc ''/opt/ffmpeg.exe'')"
    using ensure_ffmpeg_resolution [of demo_base demo_world exe_env "[]" "asc ''/opt/ffmpeg.exe''"
        demo_params] demo_no_local w2
    by (simp add: asc_def)
  have w3: "which bare_env (asc ''ffmpeg'') = None" "which bare_env (asc ''ffmpeg.exe'') = None"
    by (simp_all add: bare_env_def)
  have 4: "ensure_ffmpeg bare_env demo_base demo_world = (Inl (RuntimeError msg_no_ffmpeg), demo_world) \<and>
      fs (run_pipeline bare_env demo_base demo_params demo_world) = fs demo_world \<and>
      dialogs (run_pipeline bare_env demo_base demo_params demo_world) =
        [ShowError title_error msg_no_ffmpeg]"
    using ensure_ffmpeg_resolution [of demo_base demo_world bare_env "[]" "[]" demo_params]
      demo_no_local w3
    by (simp add: demo_world_def)
  from 1 2 3 4 show ?thesis by simp
qed

text \<open>
  C8. When the body of \<open>run_pipeline\<close> raises nothing: the sound \<open>a\<close> decoded from the
  input was cut into the segments \<open>segs\<close> of \<open>chunk_wav\<close>; \<open>texts\<close> has one entry per
  segment, entry \<open>k\<close> being the piece the recogniser gave for the part file numbered
  \<open>k\<close>; and the file \<open>transcripts/<stem>.txt\<close> under the base directory holds, as UTF-8
  text, the paragraphs of the pieces joined in that order with no separator, the
  paragraphs themselves joined by two line feeds and nothing after them. The sound,
  the segments and every piece are values of functions, so \<open>texts\<close> and the content of
  the file are determined.
\<close>

theorem run_pipeline_output:
  assumes ok: "run_try e base p w = (None, w1)"
  shows "run_pipeline e base p w = w1\<lparr>running := False\<rparr> \<and>
     (\<exists>wav a segs texts.
        with_suffix (mp4_path p) (asc ''.wav'') = Inr wav \<and>
        from_file (mp4_path p) w = Inr a \<and>
        chunk_segments a (minutes p) = Inr segs \<and>
        length texts = length segs \<and>
        (\<forall>k < length segs. piece_of e p (part_path wav k) = Inr (texts ! k)) \<and>
        fs (run_pipeline e base p w)
           (joinpath (joinpath base (asc ''transcripts'')) (path_stem (mp4_path p) @ asc ''.txt'')) =
          Some (TextFile UTF8
            (str_join [0x0A, 0x0A] (paragraphize (concat texts) (para_max p)))))"
proof -
  have r: "run_pipeline e base p w = w1\<lparr>running := False\<rparr>"
    using ok by (simp add: run_pipeline_def)
  from run_try_fragments [OF ok] obtain wav a segs texts where
    a: "with_suffix (mp4_path p) (asc ''.wav'') = Inr wav"
    and b: "from_file (mp4_path p) w = Inr a"
    and c: "chunk_segments a (minutes p) = Inr segs"
    and d: "length texts = length segs"
    and f: "\<forall>k < length segs. piece_of e p (part_path wav k) = Inr (texts ! k)"
    and g: "fs w1 (joinpath (joinpath base (asc ''transcripts'')) (path_stem (mp4_path p) @ asc ''.txt'')) =
       Some (TextFile UTF8 (str_join [0x0A, 0x0A] (paragraphize (concat texts) (para_max p))))"
    by blast
  have "fs (run_pipeline e base p w) = fs w1" by (simp add: r)
  with g have g': "fs (run_pipeline e base p w)
      (joinpath (joinpath base (asc ''transcripts'')) (path_stem (mp4_path p) @ asc ''.txt'')) =
       Some (TextFile UTF8 (str_join [0x0A, 0x0A] (paragraphize (concat texts) (para_max p))))"
    by simp
  show ?thesis
    using r a b c d f g' by (intro conjI exI [of _ wav] exI [of _ a] exI [of _ segs] exI [of _ texts])
qed

text \<open>
  C8 on the example installation: 90 seconds of sound in chunks of one minute give
  two part files, the recogniser's pieces for them are the two sentences of the
  specification's first scenario, and the output file holds them as one paragraph.
\<close>

theorem run_pipeline_output_witness:
  "fst (run_try demo_env demo_base demo_params demo_world) = None \<and>
   fs (run_pipeline demo_env demo_base demo_params demo_world) demo_out =
     Some (TextFile UTF8 two_sentences)"
proof -
  let ?wav = "\<lparr>p_drive = [], p_root = [0x2F], p_parts = [asc ''app'', asc ''talk.wav'']\<rparr>"
  have h: "run_try demo_env demo_base demo_params demo_world =
      (None, snd (run_try demo_env demo_base demo_params demo_world))"
    using demo_run_ok by (simp add: prod_eq_iff)
  from run_pipeline_output [OF h] obtain wav a segs texts where
    w: "with_suffix (mp4_path demo_params) (asc ''.wav'') = Inr wav"
    and a: "from_file (mp4_path demo_params) demo_world = Inr a"
    and s: "chunk_segments a (minutes demo_params) = Inr segs"
    and l: "length texts = length segs"
    and t: "\<forall>k < length segs. piece_of demo_env demo_params (part_path wav k) = Inr (texts ! k)"
    and f: "fs (run_pipeline demo_env demo_base demo_params demo_world)
         (joinpath (joinpath demo_base (asc ''transcripts''))
            (path_stem (mp4_path demo_params) @ asc ''.txt'')) =
        Some (TextFile UTF8
          (str_join [0x0A, 0x0A] (paragraphize (concat texts) (para_max demo_params))))"
    by (elim exE conjE) (rule that, assumption+)
  have wav: "wav = ?wav" using w demo_wav by (simp add: demo_params_def)
  have "a = replicate 90000 0" using a demo_audio by simp
  then have segs: "segs = [(0, replicate 60000 0), (1, replicate 30000 0)]"
    using s demo_segments by (simp add: demo_params_def)
  have l2: "length texts = 2" using l segs by simp
  have t0: "texts ! 0 = [0x4ECA, 0x5929, 0x5929, 0x6C23, 0x5F88, 0x597D, 0x3002]"
    using t demo_piece0 unfolding wav segs by simp
  have t1: "texts ! 1 = [0x6211, 0x5011, 0x53BB, 0x516C, 0x5712, 0x6563, 0x6B65, 0x3002]"
    using t demo_piece1 unfolding wav segs by simp
  from l2 obtain x y where xy: "texts = [x, y]"
    by (metis length_0_conv length_Suc_conv numeral_2_eq_2)
  with t0 t1 have "concat texts = two_sentences" by (simp add: two_sentences_def)
  then have "str_join [0x0A, 0x0A] (paragraphize (concat texts) (para_max demo_params)) =
      two_sentences"
    by (simp add: demo_params_def scenario_one_paragraph)
  with f demo_out_path demo_run_ok show ?thesis by simp
qed

text \<open>
  C10. With no job running and a non-blank input that parses to a path that is not
  absolute, \<open>on_start\<close> uses the base directory joined with the final component of
  the input: drive, root and leading components of the result are those of the base
  directory, so the directories of the input are gone. The existence test is on that
  path: when it fails, the only change is the error box naming the path, and no worker
  is started; when it holds, the worker is started with that path.
\<close>

theorem on_start_relative_input:
  assumes idle: "\<not> running w"
    and given: "strip (mp4_var f) \<noteq> []"
    and rel: "\<not> is_absolute e (parse_path e (strip (mp4_var f)))"
  shows "resolve_input e base (strip (mp4_var f)) =
           joinpath base (path_name (parse_path e (strip (mp4_var f)))) \<and>
         p_drive (resolve_input e base (strip (mp4_var f))) = p_drive base \<and>
         p_root (resolve_input e base (strip (mp4_var f))) = p_root base \<and>
         p_parts (resolve_input e base (strip (mp4_var f))) =
           (if path_name (parse_path e (strip (mp4_var f))) = [] then p_parts base
            else p_parts base @ [path_name (parse_path e (strip (mp4_var f)))]) \<and>
         (\<not> path_exists (resolve_input e base (strip (mp4_var f))) w \<longrightarrow>
            on_start e base f w =
              w\<lparr>dialogs := dialogs w @
                 [ShowError title_not_found
                    (msg_not_found @ path_str e (resolve_input e base (strip (mp4_var f))))]\<rparr> \<and>
            worker (on_start e base f w) = worker w \<and> \<not> running (on_start e base f w)) \<and>
         (path_exists (resolve_input e base (strip (mp4_var f))) w \<longrightarrow>
            running (on_start e base f w) \<and> dialogs (on_start e base f w) = dialogs w \<and>
            worker (on_start e base f w) =
              Some \<lparr>mp4_path = resolve_input e base (strip (mp4_var f)), minutes = minutes_var f,
                     model = model_var f, language = language_var f, vad_ms = vad_ms_var f,
                     beam = beam_var f, cond_prev = cond_prev_var f,
                     para_max = paragraph_max_var f\<rparr>)"
proof -
  let ?r = "resolve_input e base (strip (mp4_var f))"
  have r: "?r = joinpath base (path_name (parse_path e (strip (mp4_var f))))"
    using rel by (simp add: resolve_input_def Let_def)
  have parts: "p_drive ?r = p_drive base" "p_root ?r = p_root base"
    "p_parts ?r = (if path_name (parse_path e (strip (mp4_var f))) = [] then p_parts base
            else p_parts base @ [path_name (parse_path e (strip (mp4_var f)))])"
    unfolding r by (simp_all add: joinpath_def)
  have miss: "on_start e base f w =
        w\<lparr>dialogs := dialogs w @ [ShowError title_not_found (msg_not_found @ path_str e ?r)]\<rparr>"
    if "\<not> path_exists ?r w"
    using idle given that by (simp add: on_start_def Let_def)
  have hit: "on_start e base f w =
      (log_line LogStart (w\<lparr>running := True, progress_value := 0, logbox := []\<rparr>))
        \<lparr>worker := Some \<lparr>mp4_path = ?r, minutes = minutes_var f,
                     model = model_var f, language = language_var f, vad_ms = vad_ms_var f,
                     beam = beam_var f, cond_prev = cond_prev_var f,
                     para_max = paragraph_max_var f\<rparr>\<rparr>"
    if "path_exists ?r w"
    using idle given that by (simp add: on_start_def Let_def)
  show ?thesis
  proof (intro conjI impI)
    show "?r = joinpath base (path_name (parse_path e (strip (mp4_var f))))" by (rule r)
    show "p_drive ?r = p_drive base" "p_root ?r = p_root base" by (rule parts)+
    show "p_parts ?r = (if path_name (parse_path e (strip (mp4_var f))) = [] then p_parts base
            else p_parts base @ [path_name (parse_path e (strip (mp4_var f)))])" by (rule parts)
  next
    assume n: "\<not> path_exists ?r w"
    show "on_start e base f w =
        w\<lparr>dialogs := dialogs w @ [ShowError title_not_found (msg_not_found @ path_str e ?r)]\<rparr>"
      using n by (rule miss)
    show "worker (on_start e base f w) = worker w" by (simp add: miss [OF n])
    show "\<not> running (on_start e base f w)" using idle by (simp add: miss [OF n])
  next
    assume y: "path_exists ?r w"
    show "running (on_start e base f w)" by (simp add: hit [OF y] log_line_def)
    show "dialogs (on_start e base f w) = dialogs w" by (simp add: hit [OF y] log_line_def)
    show "worker (on_start e base f w) =
              Some \<lparr>mp4_path = ?r, minutes = minutes_var f,
                     model = model_var f, language = language_var f, vad_ms = vad_ms_var f,
                     beam = beam_var f, cond_prev = cond_prev_var f,
                     para_max = paragraph_max_var f\<rparr>"
      by (simp add: hit [OF y])
  qed
qed

text \<open>
  C10 on the example: \<open>sub/talk.mp4\<close> becomes \<open>/app/talk.mp4\<close>, which exists, and
  the job starts; \<open>sub/none.mp4\<close> becomes \<open>/app/none.mp4\<close>, which does not.
\<close>

theorem on_start_relative_input_witness:
  "\<not> running demo_world \<and>
   p_parts (parse_path demo_env (strip (mp4_var demo_form))) = [asc ''sub'', asc ''talk.mp4''] \<and>
   resolve_input demo_env demo_base (strip (mp4_var demo_form)) = demo_mp4 \<and>
   path_exists demo_mp4 demo_world \<and>
   running (on_start demo_env demo_base demo_form demo_world) \<and>
   worker (on_start demo_env demo_base demo_form demo_world) =
     Some \<lparr>mp4_path = demo_mp4, minutes = 20, model = asc ''large-v3'', language = asc ''zh'',
            vad_ms = 500, beam = 5, cond_prev = False, para_max = 170\<rparr> \<and>
   p_parts (resolve_input demo_env demo_base (strip (mp4_var lost_form))) =
     [asc ''app'', asc ''none.mp4''] \<and>
   on_start demo_env demo_base lost_form demo_world =
     demo_world\<lparr>dialogs := [ShowError title_not_found (msg_not_found @ asc ''/app/none.mp4'')]\<rparr> \<and>
   worker (on_start demo_env demo_base lost_form demo_world) = None"
proof -
  have idle: "\<not> running demo_world" by (simp add: demo_world_def)
  have g1: "strip (mp4_var demo_form) \<noteq> []" by (simp add: demo_form_input asc_def)
  have g2: "strip (mp4_var lost_form) \<noteq> []" by (simp add: lost_form_input asc_def)
  have r1: "\<not> is_absolute demo_env (parse_path demo_env (strip (mp4_var demo_form)))"
    by (simp add: demo_form_input demo_parse is_absolute_def)
  have r2: "\<not> is_absolute demo_env (parse_path demo_env (strip (mp4_var lost_form)))"
    by (simp add: lost_form_input lost_parse is_absolute_def)
  note t1 = on_start_relative_input [OF idle g1 r1, of demo_base]
  note t2 = on_start_relative_input [OF idle g2 r2, of demo_base]
  have p1: "path_name (parse_path demo_env (strip (mp4_var demo_form))) = asc ''talk.mp4''"
    by (simp add: demo_form_input demo_parse path_name_def)
  have p2: "path_name (parse_path demo_env (strip (mp4_var lost_form))) = asc ''none.mp4''"
    by (simp add: lost_form_input lost_parse path_name_def)
  have e1: "resolve_input demo_env demo_base (strip (mp4_var demo_form)) = demo_mp4"
    using t1 by (simp add: p1 joinpath_def demo_base_def demo_mp4_def asc_def)
  have e2: "resolve_input demo_env demo_base (strip (mp4_var lost_form)) =
      \<lparr>p_drive = [], p_root = [0x2F], p_parts = [asc ''app'', asc ''none.mp4'']\<rparr>"
    using t2 by (simp add: p2 joinpath_def demo_base_def asc_def)
  have x1: "path_exists demo_mp4 demo_world" by (simp add: path_exists_def demo_world_def)
  have x2: "\<not> path_exists \<lparr>p_drive = [], p_root = [0x2F], p_parts = [asc ''app'', asc ''none.mp4'']\<rparr>
      demo_world"
    by (simp add: path_exists_def demo_world_def demo_mp4_def demo_base_def asc_def)
  have s2: "path_str demo_env \<lparr>p_drive = [], p_root = [0x2F], p_parts = [asc ''app'', asc ''none.mp4'']\<rparr> =
      asc ''/app/none.mp4''"
    by (simp add: demo_env_def posix_str_def asc_def)
  have a: "running (on_start demo_env demo_base demo_form demo_world) \<and>
      worker (on_start demo_env demo_base demo_form demo_world) =
        Some \<lparr>mp4_path = demo_mp4, minutes = 20, model = asc ''large-v3'', language = asc ''zh'',
            vad_ms = 500, beam = 5, cond_prev = False, para_max = 170\<rparr>"
    using t1 x1 unfolding e1 by (simp add: demo_form_def)
  have b: "on_start demo_env demo_base lost_form demo_world =
       demo_world\<lparr>dialogs := [ShowError title_not_found (msg_not_found @ asc ''/app/none.mp4'')]\<rparr> \<and>
     worker (on_start demo_env demo_base lost_form demo_world) = None"
    using t2 x2 unfolding e2 s2 by (simp add: demo_world_def)
  have c: "p_parts (parse_path demo_env (strip (mp4_var demo_form))) = [asc ''sub'', asc ''talk.mp4'']"
    by (simp add: demo_form_input demo_parse)
  have d: "p_parts (resolve_input demo_env demo_base (strip (mp4_var lost_form))) =
     [asc ''app'', asc ''none.mp4'']"
    by (simp add: e2)
  from idle c e1 x1 a d b show ?thesis by blast
qed

end
